theory Spec2Isabelle
  imports Complex_Main "HOL-Library.Word" "HOL-Library.Sublist" "HOL-Library.Multiset"
begin

section \<open>Package makemkv: titles and title selection\<close>

text \<open>
  \<^verbatim>\<open>type Title struct { ID int; Duration time.Duration; Name string; Size int64; Chapters int }\<close>

  \<^verbatim>\<open>time.Duration\<close> is a signed 64-bit count of nanoseconds. The selection code only
  compares durations, so the field is an \<open>int\<close>; the arithmetic that builds a duration
  in \<^verbatim>\<open>parseDuration\<close> wraps explicitly (below). The field \<^verbatim>\<open>ID\<close> is named
  \<open>Title_ID\<close> here, since \<^verbatim>\<open>QueueItem\<close> has a field \<^verbatim>\<open>ID\<close> too.
\<close>

record Title =
  Title_ID :: int
  Duration :: int
  Name :: string
  Size :: int
  Chapters :: int

text \<open>The zero value \<^verbatim>\<open>Title{}\<close>.\<close>

definition Title_zero :: Title where
  "Title_zero = \<lparr>Title_ID = 0, Duration = 0, Name = [], Size = 0, Chapters = 0\<rparr>"

text \<open>
  \<^verbatim>\<open>findLongestTitle\<close>: \<^verbatim>\<open>longest := titles[0]\<close>, then the loop over
  \<^verbatim>\<open>titles[1:]\<close> replaces \<^verbatim>\<open>longest\<close> on a strictly greater duration.
\<close>

fun longest_loop :: "Title \<Rightarrow> Title list \<Rightarrow> Title" where
  "longest_loop longest [] = longest"
| "longest_loop longest (title # rest) =
     longest_loop (if Duration title > Duration longest then title else longest) rest"

definition findLongestTitle :: "Title list \<Rightarrow> Title" where
  "findLongestTitle titles =
     (case titles of [] \<Rightarrow> Title_zero | first # rest \<Rightarrow> longest_loop first rest)"

text \<open>The first loop of \<^verbatim>\<open>SelectTitles\<close>, started at \<^verbatim>\<open>maxDuration := time.Duration(0)\<close>.\<close>

fun maxDuration_loop :: "int \<Rightarrow> Title list \<Rightarrow> int" where
  "maxDuration_loop maxDuration [] = maxDuration"
| "maxDuration_loop maxDuration (title # rest) =
     maxDuration_loop (if Duration title > maxDuration then Duration title else maxDuration) rest"

text \<open>The second loop: \<^verbatim>\<open>selected = append(selected, title)\<close> under the episode threshold.\<close>

fun selected_loop :: "int \<Rightarrow> Title list \<Rightarrow> Title list \<Rightarrow> Title list" where
  "selected_loop episodeThreshold selected [] = selected"
| "selected_loop episodeThreshold selected (title # rest) =
     selected_loop episodeThreshold
       (if Duration title \<ge> episodeThreshold then selected @ [title] else selected) rest"

text \<open>A \<^verbatim>\<open>nil\<close> slice and an empty slice are both the empty list.\<close>

definition SelectTitles :: "Title list \<Rightarrow> int \<Rightarrow> int \<Rightarrow> Title list" where
  "SelectTitles titles movieThreshold episodeThreshold =
     (if length titles = 0 then []
      else
        let maxDuration = maxDuration_loop 0 titles in
        if maxDuration \<ge> movieThreshold then [findLongestTitle titles]
        else selected_loop episodeThreshold [] titles)"

section \<open>Package makemkv: the scan parser\<close>

text \<open>
  The functions of \<^verbatim>\<open>strings\<close> and \<^verbatim>\<open>strconv\<close> that \<^verbatim>\<open>ParseInfo\<close> calls, on byte
  strings. \<^verbatim>\<open>TrimSpace\<close> and \<^verbatim>\<open>ToLower\<close> are modelled on ASCII, the alphabet of
  the ripping tool's records; bytes from 0x80 on are left as they are.
\<close>

definition dquote :: char where
  "dquote = CHR 0x22"

fun Split :: "string \<Rightarrow> char \<Rightarrow> string list" where
  "Split [] sep = [[]]"
| "Split (c # s) sep =
     (if c = sep then [] # Split s sep
      else case Split s sep of [] \<Rightarrow> [[c]] | p # ps \<Rightarrow> (c # p) # ps)"

text \<open>\<^verbatim>\<open>strings.SplitN(s, sep, n)\<close>: at most \<open>n\<close> parts, the last one the unsplit rest.\<close>

fun SplitN :: "string \<Rightarrow> char \<Rightarrow> nat \<Rightarrow> string list" where
  "SplitN s sep 0 = []"
| "SplitN s sep (Suc 0) = [s]"
| "SplitN s sep (Suc (Suc n)) =
     (if sep \<in> set s
      then takeWhile (\<lambda>c. c \<noteq> sep) s # SplitN (tl (dropWhile (\<lambda>c. c \<noteq> sep) s)) sep (Suc n)
      else [s])"

text \<open>
  \<^verbatim>\<open>strings.Contains\<close>: the substring occurs at some position.
\<close>

fun Contains :: "string \<Rightarrow> string \<Rightarrow> bool" where
  "Contains [] substr = (substr = [])"
| "Contains (c # s) substr = (prefix substr (c # s) \<or> Contains s substr)"

text \<open>
  \<^verbatim>\<open>strings.Trim\<close> with an ASCII cutset removes the leading and the trailing bytes
  that are in the cutset.
\<close>

definition Trim :: "string \<Rightarrow> string \<Rightarrow> string" where
  "Trim s cutset =
     rev (dropWhile (\<lambda>c. c \<in> set cutset) (rev (dropWhile (\<lambda>c. c \<in> set cutset) s)))"

definition asciiSpace :: "char list" where
  "asciiSpace = [CHR 0x09, CHR 0x0A, CHR 0x0B, CHR 0x0C, CHR 0x0D, CHR '' '']"

definition TrimSpace :: "string \<Rightarrow> string" where
  "TrimSpace s = Trim s asciiSpace"

definition to_lower :: "char \<Rightarrow> char" where
  "to_lower c =
     (if c \<in> set ''ABCDEFGHIJKLMNOPQRSTUVWXYZ'' then char_of (of_char c + (32::nat)) else c)"

definition ToLower :: "string \<Rightarrow> string" where
  "ToLower s = map to_lower s"

text \<open>
  \<^verbatim>\<open>extractQuotedValue\<close>: the bytes between the first and the last double quote, when
  there are two.
\<close>

definition extractQuotedValue :: "string \<Rightarrow> string" where
  "extractQuotedValue s =
     (if dquote \<in> set s then
        (let start = length (takeWhile (\<lambda>c. c \<noteq> dquote) s);
             end' = length s - 1 - length (takeWhile (\<lambda>c. c \<noteq> dquote) (rev s))
         in if start < end' then take (end' - (start + 1)) (drop (start + 1) s) else [])
      else [])"

text \<open>
  \<^verbatim>\<open>strconv.Atoi\<close> and \<^verbatim>\<open>strconv.ParseInt(s, 10, 64)\<close> agree on a 64-bit platform:
  an optional sign, then one or more decimal digits. The result is the value and
  whether an error is returned: 0 on a syntax error, the nearest bound of the 64-bit
  range on a range error.
\<close>

definition is_digit :: "char \<Rightarrow> bool" where
  "is_digit c = (c \<in> set ''0123456789'')"

definition parse_digits :: "string \<Rightarrow> nat option" where
  "parse_digits s =
     (if s \<noteq> [] \<and> list_all is_digit s
      then Some (foldl (\<lambda>n c. n * 10 + (of_char c - 48)) 0 s)
      else None)"

definition ParseInt :: "string \<Rightarrow> int \<times> bool" where
  "ParseInt s =
     (let (neg, body) =
            (case s of
               [] \<Rightarrow> (False, s)
             | c # r \<Rightarrow> if c = CHR ''+'' then (False, r)
                        else if c = CHR ''-'' then (True, r) else (False, s))
      in case parse_digits body of
           None \<Rightarrow> (0, True)
         | Some un \<Rightarrow>
             if \<not> neg \<and> int un \<ge> 2 ^ 63 then (2 ^ 63 - 1, True)
             else if neg \<and> int un > 2 ^ 63 then (- (2 ^ 63), True)
             else (if neg then - int un else int un, False))"

definition Atoi :: "string \<Rightarrow> int \<times> bool" where
  "Atoi s = ParseInt s"

text \<open>Signed 64-bit wrap-around, for the arithmetic on \<^verbatim>\<open>time.Duration\<close>.\<close>

definition wrap64 :: "int \<Rightarrow> int" where
  "wrap64 x = (x + 2 ^ 63) mod 2 ^ 64 - 2 ^ 63"

definition parseDuration :: "string \<Rightarrow> int" where
  "parseDuration s =
     (case Split s (CHR '':'') of
        [p0, p1, p2] \<Rightarrow>
          (let hours = fst (Atoi p0); minutes = fst (Atoi p1); seconds = fst (Atoi p2)
           in wrap64 (wrap64 (wrap64 (hours * 3600000000000) + wrap64 (minutes * 60000000000))
                      + wrap64 (seconds * 1000000000)))
      | _ \<Rightarrow> 0)"

text \<open>
  \<^verbatim>\<open>titleMap := make(map[int]*Title)\<close> is a map from ids to titles. The title id that
  a \<^verbatim>\<open>TINFO\<close> line carries, when the line has four fields and both numbers parse:
\<close>

definition tinfo_fields :: "string \<Rightarrow> (int \<times> int \<times> string) option" where
  "tinfo_fields line =
     (case SplitN (drop 6 line) (CHR '','') 4 of
        [p0, p1, p2, p3] \<Rightarrow>
          (let (titleID, err0) = Atoi p0 in
           if err0 then None
           else let (attributeID, err1) = Atoi p1 in
             if err1 then None
             else Some (titleID, attributeID, extractQuotedValue p3))
      | _ \<Rightarrow> None)"

definition set_attribute :: "int \<Rightarrow> string \<Rightarrow> Title \<Rightarrow> Title" where
  "set_attribute attributeID v title =
     (if attributeID = 2 then title\<lparr>Name := v\<rparr>
      else if attributeID = 9 then title\<lparr>Duration := parseDuration v\<rparr>
      else if attributeID = 10 then title\<lparr>Size := fst (ParseInt v)\<rparr>
      else if attributeID = 8 then title\<lparr>Chapters := fst (Atoi v)\<rparr>
      else title)"

definition parseTitleInfo :: "string \<Rightarrow> (int \<rightharpoonup> Title) \<Rightarrow> (int \<rightharpoonup> Title)" where
  "parseTitleInfo line titleMap =
     (case tinfo_fields line of
        None \<Rightarrow> titleMap
      | Some (titleID, attributeID, v) \<Rightarrow>
          (let title = (case titleMap titleID of
                          None \<Rightarrow> Title_zero\<lparr>Title_ID := titleID\<rparr>
                        | Some t \<Rightarrow> t)
           in titleMap(titleID \<mapsto> set_attribute attributeID v title)))"

record ScanResult =
  Titles :: "Title list"
  Scan_DiscName :: string
  Scan_DiscType :: string

text \<open>The body of the loop over the lines, on the result under construction and the map.\<close>

definition parse_line :: "ScanResult \<times> (int \<rightharpoonup> Title) \<Rightarrow> string \<Rightarrow> ScanResult \<times> (int \<rightharpoonup> Title)" where
  "parse_line = (\<lambda>(result, titleMap) line0.
     let line = TrimSpace line0 in
     if line = [] then (result, titleMap)
     else
       let result = (if prefix (''CINFO:2,0,'' @ [dquote]) line
                     then result\<lparr>Scan_DiscName := extractQuotedValue line\<rparr> else result);
           result = (if Contains (ToLower line) ''blu-ray'' \<or> Contains (ToLower line) ''bd-rom''
                     then result\<lparr>Scan_DiscType := ''Blu-ray''\<rparr>
                     else if Contains (ToLower line) ''dvd''
                     then (if Scan_DiscType result = [] then result\<lparr>Scan_DiscType := ''DVD''\<rparr>
                           else result)
                     else result);
           titleMap = (if prefix ''TINFO:'' line then parseTitleInfo line titleMap else titleMap)
       in (result, titleMap))"

text \<open>
  \<^verbatim>\<open>for _, title := range titleMap\<close>: Go does not specify the order in which a map is
  iterated. The order of one execution is the parameter \<open>order\<close>, a list of the keys;
  \<open>range_order titleMap order\<close> says that it visits every key of the map once.
\<close>

definition range_order :: "(int \<rightharpoonup> Title) \<Rightarrow> int list \<Rightarrow> bool" where
  "range_order titleMap order = (distinct order \<and> set order = dom titleMap)"

fun range_loop :: "(int \<rightharpoonup> Title) \<Rightarrow> Title list \<Rightarrow> int list \<Rightarrow> Title list" where
  "range_loop titleMap acc [] = acc"
| "range_loop titleMap acc (k # ks) =
     range_loop titleMap
       (case titleMap k of
          Some title \<Rightarrow> if Duration title > 0 then acc @ [title] else acc
        | None \<Rightarrow> acc) ks"

definition parse_lines :: "string \<Rightarrow> ScanResult \<times> (int \<rightharpoonup> Title)" where
  "parse_lines output =
     foldl parse_line (\<lparr>Titles = [], Scan_DiscName = [], Scan_DiscType = []\<rparr>, Map.empty)
       (Split output (CHR 0x0A))"

definition ParseInfo :: "int list \<Rightarrow> string \<Rightarrow> ScanResult" where
  "ParseInfo order output =
     (let (result, titleMap) = parse_lines output;
          result = (if Scan_DiscType result = [] then result\<lparr>Scan_DiscType := ''DVD''\<rparr>
                    else result)
      in result\<lparr>Titles := range_loop titleMap (Titles result) order\<rparr>)"

text \<open>
  Scan order: the title ids in the order in which the lines first mention them.
\<close>

definition line_title_id :: "string \<Rightarrow> int option" where
  "line_title_id line0 =
     (let line = TrimSpace line0 in
      if line \<noteq> [] \<and> prefix ''TINFO:'' line
      then map_option fst (tinfo_fields line) else None)"

fun first_seen :: "int list \<Rightarrow> string list \<Rightarrow> int list" where
  "first_seen seen [] = seen"
| "first_seen seen (line # rest) =
     first_seen
       (case line_title_id line of
          Some k \<Rightarrow> if k \<in> set seen then seen else seen @ [k]
        | None \<Rightarrow> seen) rest"

definition scan_order :: "string \<Rightarrow> int list" where
  "scan_order output = first_seen [] (Split output (CHR 0x0A))"

section \<open>Package makemkv: progress percentage\<close>

text \<open>
  \<^verbatim>\<open>func CalculatePercentage(current, total, max int) float64\<close>

  Go's \<^verbatim>\<open>int\<close> is a 64-bit word here. The IEEE-754 binary64 operations are not part of
  the repository and not of HOL: the conversion \<^verbatim>\<open>float64(x)\<close>, the division and the
  multiplication are taken as parameters, over any carrier \<open>'f\<close>. The constants
  \<^verbatim>\<open>0\<close> and \<^verbatim>\<open>100.0\<close> are the conversions of the integers 0 and 100, both exact.
  The parameters \<^verbatim>\<open>total\<close> and \<^verbatim>\<open>max\<close> are primed: both names are HOL constants.
\<close>

type_synonym go_int = "64 word"

record 'f float64_ops =
  f64_of_int :: "go_int \<Rightarrow> 'f"
  f64_div :: "'f \<Rightarrow> 'f \<Rightarrow> 'f"
  f64_mul :: "'f \<Rightarrow> 'f \<Rightarrow> 'f"

definition CalculatePercentage :: "'f float64_ops \<Rightarrow> go_int \<Rightarrow> go_int \<Rightarrow> go_int \<Rightarrow> 'f" where
  "CalculatePercentage F current total' max' =
     (if max' = 0 then f64_of_int F 0
      else f64_mul F (f64_div F (f64_of_int F current) (f64_of_int F max')) (f64_of_int F 100))"

text \<open>Exact real arithmetic as one instance of the operations, for evaluation.\<close>

definition real_ops :: "real float64_ops" where
  "real_ops = \<lparr>f64_of_int = (\<lambda>w. real_of_int (sint w)), f64_div = (\<lambda>a b. a / b),
               f64_mul = (\<lambda>a b. a * b)\<rparr>"

section \<open>Package disk: file names\<close>

text \<open>
  A Go string is a byte sequence, a \<open>string\<close> here. \<^verbatim>\<open>strings.NewReplacer\<close> with
  single-byte patterns and replacements rewrites each byte on its own. \<open>Trim\<close> is
  defined with the parser's string functions above.
\<close>

definition replacer_olds :: "char list" where
  "replacer_olds = [CHR ''/'', CHR 0x5C, CHR '':'', CHR ''*'', CHR ''?'', CHR 0x22,
                    CHR ''<'', CHR ''>'', CHR ''|'', CHR '' '']"

definition replacer_Replace :: "string \<Rightarrow> string" where
  "replacer_Replace name = map (\<lambda>c. if c \<in> set replacer_olds then CHR ''_'' else c) name"

definition SanitizeFilename :: "string \<Rightarrow> string" where
  "SanitizeFilename name =
     (let sanitized = replacer_Replace name;
          sanitized = Trim sanitized ''_.''
      in if sanitized = [] then ''Unnamed_Disc'' else sanitized)"

section \<open>Package encode: queue items and persistence\<close>

text \<open>
  \<^verbatim>\<open>ItemStatus\<close> and \<^verbatim>\<open>disk.DiscType\<close> are the enumerations of the source.
  A \<^verbatim>\<open>time.Time\<close> is an instant, an \<open>int\<close>; the pointers \<^verbatim>\<open>*time.Time\<close> are
  options (\<^verbatim>\<open>nil\<close> is \<open>None\<close>). \<^verbatim>\<open>Progress\<close> is a \<^verbatim>\<open>float64\<close> that the queue
  only stores and resets to 0, never computes with: it is a \<open>real\<close>.
\<close>

datatype ItemStatus = StatusQueued | StatusEncoding | StatusPaused | StatusComplete | StatusFailed

datatype DiscType = DiscTypeDVD | DiscTypeBluRay

type_synonym go_time = int

record QueueItem =
  ID :: string
  SourcePath :: string
  DestPath :: string
  DiscType :: DiscType
  DiscName :: string
  TitleName :: string
  Status :: ItemStatus
  Progress :: real
  CreatedAt :: go_time
  StartedAt :: "go_time option"
  CompletedAt :: "go_time option"
  Error :: string

record StatePersistence =
  filePath :: string

definition NewStatePersistence :: "string \<Rightarrow> StatePersistence" where
  "NewStatePersistence path = \<lparr>filePath = path\<rparr>"

text \<open>
  The world outside the process. The file system maps a path to the bytes of the file
  there and keeps the list of the calls made to it, so that a write is visible even
  when it stores the bytes already there. \<open>Call_MkdirAll_Dir p\<close> is the call
  \<^verbatim>\<open>os.MkdirAll(filepath.Dir(p), 0755)\<close>; directories are not modelled further.
\<close>

datatype os_call =
    Call_MkdirAll_Dir string
  | Call_WriteFile string string
  | Call_Rename string string
  | Call_ReadFile string

record fs =
  files :: "string \<rightharpoonup> string"
  calls :: "os_call list"

text \<open>
  What the operating system answers during one queue operation: the instant
  \<^verbatim>\<open>time.Now()\<close> returns, and for each kind of call the error it fails with, if it
  fails (\<open>ReadFile_err\<close> is an error other than "file does not exist"). An error is
  its text, \<^verbatim>\<open>err.Error()\<close>. A call that fails leaves the files as they were.
\<close>

record os_env =
  Now :: go_time
  MkdirAll_err :: "string option"
  WriteFile_err :: "string option"
  Rename_err :: "string option"
  ReadFile_err :: "string option"

text \<open>
  \<^verbatim>\<open>encoding/json\<close> at the type \<^verbatim>\<open>[]*QueueItem\<close> is a parameter: the standard
  library is not part of the repository. \<open>Inl\<close> carries the error text.
\<close>

record json_codec =
  MarshalIndent :: "QueueItem list \<Rightarrow> string + string"
  Unmarshal :: "string \<Rightarrow> string + QueueItem list"

definition log_call :: "os_call \<Rightarrow> fs \<Rightarrow> fs" where
  "log_call c s = s\<lparr>calls := calls s @ [c]\<rparr>"

text \<open>
  \<^verbatim>\<open>StatePersistence.Save\<close>: create the directory, marshal, write the temporary file,
  rename it onto the state file. Each step returns early with its wrapped error.
\<close>

definition Save :: "json_codec \<Rightarrow> os_env \<Rightarrow> StatePersistence \<Rightarrow> QueueItem list \<Rightarrow> fs
    \<Rightarrow> string option \<times> fs" where
  "Save J E sp its fs0 =
     (let fs1 = log_call (Call_MkdirAll_Dir (filePath sp)) fs0 in
      case MkdirAll_err E of
        Some err \<Rightarrow> (Some (''failed to create state directory: '' @ err), fs1)
      | None \<Rightarrow>
     (case MarshalIndent J its of
        Inl err \<Rightarrow> (Some (''failed to marshal queue state: '' @ err), fs1)
      | Inr data \<Rightarrow>
     (let tmpPath = filePath sp @ ''.tmp'';
          fs2 = log_call (Call_WriteFile tmpPath data) fs1 in
      case WriteFile_err E of
        Some err \<Rightarrow> (Some (''failed to write temp state file: '' @ err), fs2)
      | None \<Rightarrow>
     (let fs3 = fs2\<lparr>files := (files fs2)(tmpPath \<mapsto> data)\<rparr>;
          fs4 = log_call (Call_Rename tmpPath (filePath sp)) fs3 in
      case Rename_err E of
        Some err \<Rightarrow> (Some (''failed to rename state file: '' @ err), fs4)
      | None \<Rightarrow>
          (None, fs4\<lparr>files := (files fs4)(tmpPath := None, filePath sp := files fs4 tmpPath)\<rparr>)))))"

text \<open>
  \<^verbatim>\<open>StatePersistence.Load\<close>: a missing file is the empty queue; a read error and an
  unmarshal error are returned wrapped.
\<close>

definition Load :: "json_codec \<Rightarrow> os_env \<Rightarrow> StatePersistence \<Rightarrow> fs
    \<Rightarrow> (string + QueueItem list) \<times> fs" where
  "Load J E sp fs0 =
     (let fs1 = log_call (Call_ReadFile (filePath sp)) fs0 in
      case ReadFile_err E of
        Some err \<Rightarrow> (Inl (''failed to read state file: '' @ err), fs1)
      | None \<Rightarrow>
     (case files fs1 (filePath sp) of
        None \<Rightarrow> (Inr [], fs1)
      | Some data \<Rightarrow>
     (case Unmarshal J data of
        Inl err \<Rightarrow> (Inl (''failed to unmarshal queue state: '' @ err), fs1)
      | Inr its \<Rightarrow> (Inr its, fs1))))"

section \<open>Package encode: the queue\<close>

text \<open>
  \<^verbatim>\<open>type Queue struct { items []*QueueItem; mu sync.RWMutex; persistence *StatePersistence }\<close>

  Every method holds the lock for its whole body, so each is one atomic step on the
  pair of the queue and the file system: it takes the pair and returns the error (if
  any) and the new pair. The items are values: no method keeps a pointer to an item
  outside the queue and writes through it.
\<close>

record Queue =
  items :: "QueueItem list"
  persistence :: StatePersistence

type_synonym queue_result = "string option \<times> Queue \<times> fs"

definition NewQueue :: "string \<Rightarrow> Queue" where
  "NewQueue statePath = \<lparr>items = [], persistence = NewStatePersistence statePath\<rparr>"

text \<open>
  The loop shared by \<^verbatim>\<open>UpdateProgress\<close>, \<^verbatim>\<open>SetStatus\<close> and \<^verbatim>\<open>Fail\<close>: the first
  item with the id is changed and the loop returns; \<open>None\<close> when no item has the id.
\<close>

fun update_first :: "string \<Rightarrow> (QueueItem \<Rightarrow> QueueItem) \<Rightarrow> QueueItem list \<Rightarrow> QueueItem list option" where
  "update_first id' f [] = None"
| "update_first id' f (item # rest) =
     (if ID item = id' then Some (f item # rest)
      else map_option (\<lambda>r. item # r) (update_first id' f rest))"

definition save_items :: "json_codec \<Rightarrow> os_env \<Rightarrow> Queue \<Rightarrow> QueueItem list \<Rightarrow> fs \<Rightarrow> queue_result" where
  "save_items J E q its s =
     (let q' = q\<lparr>items := its\<rparr>;
          (err, s') = Save J E (persistence q') (items q') s
      in (err, q', s'))"

definition recover_item :: "QueueItem \<Rightarrow> QueueItem" where
  "recover_item item =
     (if Status item = StatusEncoding
      then item\<lparr>Status := StatusQueued, Progress := 0, StartedAt := None\<rparr>
      else item)"

text \<open>
  \<^verbatim>\<open>LoadState\<close> returns \<^verbatim>\<open>nil\<close> on every path: a load error leaves the queue as it
  was, and the error of the final save is dropped.
\<close>

definition LoadState :: "json_codec \<Rightarrow> os_env \<Rightarrow> Queue \<times> fs \<Rightarrow> queue_result" where
  "LoadState J E = (\<lambda>(q, s).
     case Load J E (persistence q) s of
       (Inl err, s1) \<Rightarrow> (None, q, s1)
     | (Inr its, s1) \<Rightarrow>
         (let (err, q', s2) = save_items J E q (map recover_item its) s1
          in (None, q', s2)))"

definition Add :: "json_codec \<Rightarrow> os_env \<Rightarrow> QueueItem \<Rightarrow> Queue \<times> fs \<Rightarrow> queue_result" where
  "Add J E item = (\<lambda>(q, s). save_items J E q (items q @ [item]) s)"

definition HasSourcePath :: "string \<Rightarrow> Queue \<Rightarrow> bool" where
  "HasSourcePath sourcePath q = list_ex (\<lambda>item. SourcePath item = sourcePath) (items q)"

definition GetNext :: "Queue \<Rightarrow> QueueItem option" where
  "GetNext q = find (\<lambda>item. Status item = StatusQueued) (items q)"

definition UpdateProgress :: "json_codec \<Rightarrow> os_env \<Rightarrow> string \<Rightarrow> real \<Rightarrow> Queue \<times> fs \<Rightarrow> queue_result" where
  "UpdateProgress J E id' progress = (\<lambda>(q, s).
     case update_first id' (\<lambda>item. item\<lparr>Progress := progress\<rparr>) (items q) of
       Some its \<Rightarrow> save_items J E q its s
     | None \<Rightarrow> (None, q, s))"

definition stamp_status :: "go_time \<Rightarrow> ItemStatus \<Rightarrow> QueueItem \<Rightarrow> QueueItem" where
  "stamp_status now status item =
     (let item = item\<lparr>Status := status\<rparr> in
      case status of
        StatusEncoding \<Rightarrow> item\<lparr>StartedAt := Some now\<rparr>
      | StatusComplete \<Rightarrow> item\<lparr>CompletedAt := Some now\<rparr>
      | StatusFailed \<Rightarrow> item\<lparr>CompletedAt := Some now\<rparr>
      | _ \<Rightarrow> item)"

definition SetStatus :: "json_codec \<Rightarrow> os_env \<Rightarrow> string \<Rightarrow> ItemStatus \<Rightarrow> Queue \<times> fs \<Rightarrow> queue_result" where
  "SetStatus J E id' status = (\<lambda>(q, s).
     case update_first id' (stamp_status (Now E) status) (items q) of
       Some its \<Rightarrow> save_items J E q its s
     | None \<Rightarrow> (None, q, s))"

definition Complete :: "json_codec \<Rightarrow> os_env \<Rightarrow> string \<Rightarrow> Queue \<times> fs \<Rightarrow> queue_result" where
  "Complete J E id' = SetStatus J E id' StatusComplete"

definition Fail :: "json_codec \<Rightarrow> os_env \<Rightarrow> string \<Rightarrow> string \<Rightarrow> Queue \<times> fs \<Rightarrow> queue_result" where
  "Fail J E id' err = (\<lambda>(q, s).
     case update_first id'
            (\<lambda>item. item\<lparr>Status := StatusFailed, Error := err, CompletedAt := Some (Now E)\<rparr>)
            (items q) of
       Some its \<Rightarrow> save_items J E q its s
     | None \<Rightarrow> (None, q, s))"

definition Pause :: "json_codec \<Rightarrow> os_env \<Rightarrow> string \<Rightarrow> Queue \<times> fs \<Rightarrow> queue_result" where
  "Pause J E id' = SetStatus J E id' StatusPaused"

definition Resume :: "json_codec \<Rightarrow> os_env \<Rightarrow> string \<Rightarrow> Queue \<times> fs \<Rightarrow> queue_result" where
  "Resume J E id' = SetStatus J E id' StatusQueued"

definition GetAll :: "Queue \<Rightarrow> QueueItem list" where
  "GetAll q = items q"

definition GetCurrent :: "Queue \<Rightarrow> QueueItem option" where
  "GetCurrent q = find (\<lambda>item. Status item = StatusEncoding) (items q)"

definition ClearCompleted :: "json_codec \<Rightarrow> os_env \<Rightarrow> Queue \<times> fs \<Rightarrow> queue_result" where
  "ClearCompleted J E = (\<lambda>(q, s).
     save_items J E q
       (filter (\<lambda>item. Status item \<noteq> StatusComplete \<and> Status item \<noteq> StatusFailed) (items q)) s)"

definition retry_item :: "QueueItem \<Rightarrow> QueueItem" where
  "retry_item item =
     (if Status item = StatusFailed \<or> Status item = StatusEncoding
      then item\<lparr>Status := StatusQueued, Progress := 0, Error := [],
                 StartedAt := None, CompletedAt := None\<rparr>
      else item)"

definition RetryFailed :: "json_codec \<Rightarrow> os_env \<Rightarrow> Queue \<times> fs \<Rightarrow> queue_result" where
  "RetryFailed J E = (\<lambda>(q, s). save_items J E q (map retry_item (items q)) s)"

definition Remove :: "json_codec \<Rightarrow> os_env \<Rightarrow> string \<Rightarrow> Queue \<times> fs \<Rightarrow> queue_result" where
  "Remove J E id' = (\<lambda>(q, s).
     save_items J E q (filter (\<lambda>item. ID item \<noteq> id') (items q)) s)"

section \<open>Package encode: the worker\<close>

datatype WorkerControl = WorkerPause | WorkerResume | WorkerStop | WorkerDelete

text \<open>
  The two flags of \<^verbatim>\<open>Worker\<close>. Its other fields are references to the queue, the
  encoder and the channels. The encoder process is outside the model: the signals that
  \<^verbatim>\<open>handbrake.Pause\<close>, \<^verbatim>\<open>Resume\<close> and \<^verbatim>\<open>Cancel\<close> send have no effect on the
  worker's own state, and the outcome of an encode is an input below. The log lines
  sent on \<^verbatim>\<open>logCh\<close> and printed are left out as well.
\<close>

record Worker =
  paused :: bool
  shouldDeleteCurrent :: bool

definition NewWorker :: Worker where
  "NewWorker = \<lparr>paused = False, shouldDeleteCurrent = False\<rparr>"

definition handleControl :: "WorkerControl \<Rightarrow> Worker \<Rightarrow> Worker" where
  "handleControl ctrl w =
     (case ctrl of
        WorkerPause \<Rightarrow> w\<lparr>paused := True\<rparr>
      | WorkerResume \<Rightarrow> w\<lparr>paused := False\<rparr>
      | WorkerStop \<Rightarrow> w\<lparr>shouldDeleteCurrent := False\<rparr>
      | WorkerDelete \<Rightarrow> w\<lparr>shouldDeleteCurrent := True\<rparr>)"

text \<open>
  \<^verbatim>\<open>encodeItem\<close> up to the wait: mark the item as encoding; on an error of
  \<^verbatim>\<open>SetStatus\<close> the function returns at once. The result says whether the encode was
  started.
\<close>

definition encodeItem_begin :: "json_codec \<Rightarrow> os_env \<Rightarrow> QueueItem \<Rightarrow> Queue \<times> fs
    \<Rightarrow> bool \<times> Queue \<times> fs" where
  "encodeItem_begin J E item qs =
     (case SetStatus J E (ID item) StatusEncoding qs of
        (Some err, q', s') \<Rightarrow> (False, q', s')
      | (None, q', s') \<Rightarrow> (True, q', s'))"

text \<open>
  \<^verbatim>\<open>encodeItem\<close> from the label \<^verbatim>\<open>handleResult\<close>: \<open>err\<close> is what
  \<^verbatim>\<open>handbrake.Encode\<close> returned (\<open>None\<close> is \<^verbatim>\<open>nil\<close>). The errors that the queue
  methods return here are dropped by the source.
\<close>

definition encodeItem_handleResult :: "json_codec \<Rightarrow> os_env \<Rightarrow> QueueItem \<Rightarrow> string option
    \<Rightarrow> Worker \<times> Queue \<times> fs \<Rightarrow> Worker \<times> Queue \<times> fs" where
  "encodeItem_handleResult J E item err = (\<lambda>(w, q, s).
     case err of
       Some errStr \<Rightarrow>
         if Contains errStr ''killed'' \<or> Contains errStr ''signal'' then
           if shouldDeleteCurrent w then
             (let (e, q', s') = Remove J E (ID item) (q, s)
              in (w\<lparr>shouldDeleteCurrent := False\<rparr>, q', s'))
           else
             (let (e, q', s') = Fail J E (ID item) ''cancelled by user'' (q, s)
              in (w, q', s'))
         else
           (let (e, q', s') = Fail J E (ID item) errStr (q, s)
            in (w, q', s'))
     | None \<Rightarrow>
         (let (e, q', s') = Complete J E (ID item) (q, s)
          in (w, q', s')))"

section \<open>The queue, its clients and the worker as one transition system\<close>

text \<open>
  The state of the process as far as the queue is concerned: the worker's flags, the
  item the worker is encoding (the variable \<^verbatim>\<open>item\<close> of \<^verbatim>\<open>encodeItem\<close> while it
  waits in its \<^verbatim>\<open>select\<close>), the queue and the file system.
\<close>

record sys =
  sys_worker :: Worker
  sys_current :: "QueueItem option"
  sys_queue :: Queue
  sys_fs :: fs

text \<open>
  One atomic step. The \<open>Client\<close> actions are the queue's methods as any goroutine of
  the process can call them (the interface, the disc pipeline, the progress
  forwarder); the methods that only read are left out, they change nothing. The
  \<open>Worker\<close> actions are the branches of \<^verbatim>\<open>Worker.Run\<close> and of the \<^verbatim>\<open>select\<close> of
  \<^verbatim>\<open>encodeItem\<close>: a tick, a control command, and the end of the encode with the error
  it returned.
\<close>

datatype action =
    ClientLoadState os_env
  | ClientAdd os_env QueueItem
  | ClientUpdateProgress os_env string real
  | ClientSetStatus os_env string ItemStatus
  | ClientFail os_env string string
  | ClientClearCompleted os_env
  | ClientRetryFailed os_env
  | ClientRemove os_env string
  | WorkerTick os_env
  | WorkerCommand WorkerControl
  | WorkerEncodeDone os_env "string option"

definition client :: "(Queue \<times> fs \<Rightarrow> queue_result) \<Rightarrow> sys \<Rightarrow> sys" where
  "client m S =
     (let (err, q', s') = m (sys_queue S, sys_fs S)
      in S\<lparr>sys_queue := q', sys_fs := s'\<rparr>)"

text \<open>
  The ticker branch of \<^verbatim>\<open>Run\<close> runs only while no encode is in progress (the loop
  is blocked inside \<^verbatim>\<open>encodeItem\<close> otherwise).
\<close>

definition worker_tick :: "json_codec \<Rightarrow> os_env \<Rightarrow> sys \<Rightarrow> sys" where
  "worker_tick J E S =
     (if sys_current S \<noteq> None \<or> paused (sys_worker S) then S
      else case GetNext (sys_queue S) of
        None \<Rightarrow> S
      | Some item \<Rightarrow>
          (let (started, q', s') = encodeItem_begin J E item (sys_queue S, sys_fs S)
           in S\<lparr>sys_queue := q', sys_fs := s',
                 sys_current := (if started then Some item else None)\<rparr>))"

definition worker_done :: "json_codec \<Rightarrow> os_env \<Rightarrow> string option \<Rightarrow> sys \<Rightarrow> sys" where
  "worker_done J E err S =
     (case sys_current S of
        None \<Rightarrow> S
      | Some item \<Rightarrow>
          (let (w', q', s') =
                 encodeItem_handleResult J E item err (sys_worker S, sys_queue S, sys_fs S)
           in \<lparr>sys_worker = w', sys_current = None, sys_queue = q', sys_fs = s'\<rparr>))"

fun do_action :: "json_codec \<Rightarrow> action \<Rightarrow> sys \<Rightarrow> sys" where
  "do_action J (ClientLoadState E) S = client (LoadState J E) S"
| "do_action J (ClientAdd E item) S = client (Add J E item) S"
| "do_action J (ClientUpdateProgress E id' p) S = client (UpdateProgress J E id' p) S"
| "do_action J (ClientSetStatus E id' st) S = client (SetStatus J E id' st) S"
| "do_action J (ClientFail E id' err) S = client (Fail J E id' err) S"
| "do_action J (ClientClearCompleted E) S = client (ClearCompleted J E) S"
| "do_action J (ClientRetryFailed E) S = client (RetryFailed J E) S"
| "do_action J (ClientRemove E id') S = client (Remove J E id') S"
| "do_action J (WorkerTick E) S = worker_tick J E S"
| "do_action J (WorkerCommand ctrl) S = S\<lparr>sys_worker := handleControl ctrl (sys_worker S)\<rparr>"
| "do_action J (WorkerEncodeDone E err) S = worker_done J E err S"

fun run :: "json_codec \<Rightarrow> action list \<Rightarrow> sys \<Rightarrow> sys" where
  "run J [] S = S"
| "run J (a # as) S = run J as (do_action J a S)"

text \<open>The process starts with \<^verbatim>\<open>NewQueue\<close>, \<^verbatim>\<open>NewWorker\<close> and no encode.\<close>

definition initial :: "string \<Rightarrow> fs \<Rightarrow> sys" where
  "initial statePath s =
     \<lparr>sys_worker = NewWorker, sys_current = None, sys_queue = NewQueue statePath, sys_fs = s\<rparr>"

definition encoding_count :: "QueueItem list \<Rightarrow> nat" where
  "encoding_count its = length (filter (\<lambda>item. Status item = StatusEncoding) its)"

text \<open>
  The discipline of the single consumer. An action is disciplined when it is not a
  client's \<^verbatim>\<open>Add\<close> of an item that is already \<^verbatim>\<open>Encoding\<close>, not a client's
  \<^verbatim>\<open>SetStatus\<close> to \<^verbatim>\<open>Encoding\<close>, and not a tick on which the worker's own
  \<^verbatim>\<open>SetStatus\<close> returns an error.
\<close>

definition tick_fails :: "json_codec \<Rightarrow> os_env \<Rightarrow> sys \<Rightarrow> bool" where
  "tick_fails J E S =
     (sys_current S = None \<and> \<not> paused (sys_worker S) \<and>
      (case GetNext (sys_queue S) of
         None \<Rightarrow> False
       | Some item \<Rightarrow> \<not> fst (encodeItem_begin J E item (sys_queue S, sys_fs S))))"

fun disciplined :: "json_codec \<Rightarrow> action \<Rightarrow> sys \<Rightarrow> bool" where
  "disciplined J (ClientAdd E item) S = (Status item \<noteq> StatusEncoding)"
| "disciplined J (ClientSetStatus E id' st) S = (st \<noteq> StatusEncoding)"
| "disciplined J (WorkerTick E) S = (\<not> tick_fails J E S)"
| "disciplined J a S = True"

fun disciplined_run :: "json_codec \<Rightarrow> action list \<Rightarrow> sys \<Rightarrow> bool" where
  "disciplined_run J [] S = True"
| "disciplined_run J (a # as) S = (disciplined J a S \<and> disciplined_run J as (do_action J a S))"

section \<open>Auxiliary definitions for the statements and proofs\<close>

text \<open>
  The titles in scan order: for each title id in the order of first mention, the title
  the map holds for it, when its duration is positive.
\<close>

definition scan_ordered_titles :: "string \<Rightarrow> Title list" where
  "scan_ordered_titles output =
     filter (\<lambda>title. Duration title > 0)
       (List.map_filter (snd (parse_lines output)) (scan_order output))"

text \<open>A scan output of two records: title 0 of 30 minutes, then title 1 of 20 minutes.\<close>

definition scan_two_titles :: string where
  "scan_two_titles =
     ''TINFO:0,9,0,'' @ [dquote] @ ''0:30:00'' @ [dquote] @ [CHR 0x0A] @
     ''TINFO:1,9,0,'' @ [dquote] @ ''0:20:00'' @ [dquote]"

text \<open>The item that the queue methods address by an id: the first one that carries it.\<close>

definition lookup_item :: "string \<Rightarrow> QueueItem list \<Rightarrow> QueueItem option" where
  "lookup_item id' its = find (\<lambda>item. ID item = id') its"

text \<open>
  The classification of \<^verbatim>\<open>encodeItem\<close>: the error text mentions a kill or a signal.
\<close>

definition killed_or_signal :: "string \<Rightarrow> bool" where
  "killed_or_signal errStr = (Contains errStr ''killed'' \<or> Contains errStr ''signal'')"

text \<open>
  The invariant behind the single consumer: while the worker encodes the item with id
  \<open>x\<close>, only the first item of the queue with that id can be \<^verbatim>\<open>Encoding\<close>; while it
  encodes nothing, no item is.
\<close>

fun only_first_encoding :: "string \<Rightarrow> QueueItem list \<Rightarrow> bool" where
  "only_first_encoding x [] = True"
| "only_first_encoding x (item # rest) =
     (if ID item = x then encoding_count rest = 0
      else Status item \<noteq> StatusEncoding \<and> only_first_encoding x rest)"

definition sys_inv :: "sys \<Rightarrow> bool" where
  "sys_inv S =
     (case sys_current S of
        None \<Rightarrow> encoding_count (items (sys_queue S)) = 0
      | Some c \<Rightarrow> only_first_encoding (ID c) (items (sys_queue S)))"

text \<open>
  Whether the worker's delete flag is set after it has handled the commands \<open>cmds\<close>,
  starting with the flag at \<open>flag0\<close>: the most recent \<^verbatim>\<open>WorkerStop\<close> or
  \<^verbatim>\<open>WorkerDelete\<close> among them decides, and \<open>flag0\<close> when there is none.
\<close>

definition delete_requested :: "WorkerControl list \<Rightarrow> bool \<Rightarrow> bool" where
  "delete_requested cmds flag0 =
     (case filter (\<lambda>c. c = WorkerStop \<or> c = WorkerDelete) cmds of
        [] \<Rightarrow> flag0
      | c # cs \<Rightarrow> last (c # cs) = WorkerDelete)"

text \<open>
  Concrete values for evaluation: an operating system on which every call succeeds at
  instant \<open>t\<close>, one whose disk is full, two queued items, the first of them as it is
  in the middle of an encode, and a stand-in codec that writes and reads back the empty
  queue and one queue of two items.
\<close>

definition env_ok :: "go_time \<Rightarrow> os_env" where
  "env_ok t = \<lparr>Now = t, MkdirAll_err = None, WriteFile_err = None, Rename_err = None,
               ReadFile_err = None\<rparr>"

definition env_disk_full :: "go_time \<Rightarrow> os_env" where
  "env_disk_full t = \<lparr>Now = t, MkdirAll_err = None,
                       WriteFile_err = Some ''no space left on device'', Rename_err = None,
                       ReadFile_err = None\<rparr>"

definition item_a :: QueueItem where
  "item_a = \<lparr>ID = ''a'', SourcePath = ''/raw/a.mkv'', DestPath = ''/enc/a.mkv'',
              DiscType = DiscTypeDVD, DiscName = ''DISC'', TitleName = ''A'',
              Status = StatusQueued, Progress = 0, CreatedAt = 1, StartedAt = None,
              CompletedAt = None, Error = []\<rparr>"

definition item_b :: QueueItem where
  "item_b = \<lparr>ID = ''b'', SourcePath = ''/raw/b.mkv'', DestPath = ''/enc/b.mkv'',
              DiscType = DiscTypeBluRay, DiscName = ''DISC'', TitleName = ''B'',
              Status = StatusQueued, Progress = 0, CreatedAt = 2, StartedAt = None,
              CompletedAt = None, Error = []\<rparr>"

definition item_a_encoding :: QueueItem where
  "item_a_encoding = item_a\<lparr>Status := StatusEncoding, Progress := 40, StartedAt := Some 3\<rparr>"

definition stub_codec :: json_codec where
  "stub_codec =
     \<lparr>MarshalIndent = (\<lambda>its. if its = [] then Inr ''[]''
                              else if its = [item_a_encoding, item_b] then Inr ''[a,b]''
                              else Inr ''[...]''),
      Unmarshal = (\<lambda>data. if data = ''[]'' then Inr []
                           else if data = ''[a,b]'' then Inr [item_a_encoding, item_b]
                           else Inl ''unexpected end of JSON input'')\<rparr>"

text \<open>A codec that writes every queue as the same bytes, where the bytes do not matter.\<close>

definition const_codec :: json_codec where
  "const_codec = \<lparr>MarshalIndent = (\<lambda>its. Inr ''[]''), Unmarshal = (\<lambda>data. Inr [])\<rparr>"

definition empty_fs :: fs where
  "empty_fs = \<lparr>files = Map.empty, calls = []\<rparr>"

section \<open>Title selection: properties\<close>

lemma maxDuration_loop_ge: "m \<le> maxDuration_loop m ts"
proof (induction ts arbitrary: m)
  case Nil
  show ?case by simp
next
  case (Cons t ts)
  show ?case using Cons [of "Duration t"] Cons [of m] by simp
qed

lemma maxDuration_loop_ge_elem: "t \<in> set ts \<Longrightarrow> Duration t \<le> maxDuration_loop m ts"
proof (induction ts arbitrary: m)
  case Nil
  then show ?case by simp
next
  case (Cons a ts)
  show ?case
  proof (cases "t = a")
    case True
    have "Duration a \<le> (if Duration a > m then Duration a else m)" by simp
    also have "\<dots> \<le> maxDuration_loop (if Duration a > m then Duration a else m) ts"
      by (rule maxDuration_loop_ge)
    finally show ?thesis using True by simp
  next
    case False
    with Cons.prems have "t \<in> set ts" by simp
    then show ?thesis using Cons.IH by simp
  qed
qed

lemma maxDuration_loop_cases:
  "maxDuration_loop m ts = m \<or> (\<exists>t \<in> set ts. maxDuration_loop m ts = Duration t)"
proof (induction ts arbitrary: m)
  case Nil
  show ?case by simp
next
  case (Cons a ts)
  show ?case using Cons [of "Duration a"] Cons [of m] by auto
qed

lemma selected_loop_filter:
  "selected_loop e acc ts = acc @ filter (\<lambda>t. Duration t \<ge> e) ts"
  by (induction ts arbitrary: acc) simp_all

text \<open>
  The loop of \<^verbatim>\<open>findLongestTitle\<close> over a list \<open>pre @ ts\<close>, where \<open>longest\<close> is the
  first maximum of \<open>pre\<close>: the result sits at an index of the whole list, nothing is
  longer, and everything before it is strictly shorter.
\<close>

lemma longest_loop_first_max:
  assumes "k < length pre" and "pre ! k = longest"
    and "\<forall>j < length pre. Duration (pre ! j) \<le> Duration longest"
    and "\<forall>j < k. Duration (pre ! j) < Duration longest"
  shows "\<exists>i < length (pre @ ts). longest_loop longest ts = (pre @ ts) ! i
           \<and> (\<forall>j < length (pre @ ts). Duration ((pre @ ts) ! j) \<le> Duration ((pre @ ts) ! i))
           \<and> (\<forall>j < i. Duration ((pre @ ts) ! j) < Duration ((pre @ ts) ! i))"
  using assms
proof (induction ts arbitrary: pre k longest)
  case Nil
  then show ?case by auto
next
  case (Cons t ts)
  show ?case
  proof (cases "Duration t > Duration longest")
    case True
    have len: "length pre < length (pre @ [t])" by simp
    have at: "(pre @ [t]) ! length pre = t" by simp
    have le: "\<forall>j < length (pre @ [t]). Duration ((pre @ [t]) ! j) \<le> Duration t"
      using Cons.prems(3) True by (auto simp: nth_append less_Suc_eq)
    have lt: "\<forall>j < length pre. Duration ((pre @ [t]) ! j) < Duration t"
      using Cons.prems(3) True by (auto simp: nth_append)
    from Cons.IH [OF len at le lt] True show ?thesis by simp
  next
    case False
    have len: "k < length (pre @ [t])" using Cons.prems(1) by simp
    have at: "(pre @ [t]) ! k = longest" using Cons.prems(1,2) by (simp add: nth_append)
    have le: "\<forall>j < length (pre @ [t]). Duration ((pre @ [t]) ! j) \<le> Duration longest"
      using Cons.prems(3) False by (auto simp: nth_append less_Suc_eq)
    have lt: "\<forall>j < k. Duration ((pre @ [t]) ! j) < Duration longest"
      using Cons.prems(1,4) by (auto simp: nth_append)
    from Cons.IH [OF len at le lt] False show ?thesis by simp
  qed
qed

lemma findLongestTitle_first_max:
  assumes "titles \<noteq> []"
  shows "\<exists>i < length titles. findLongestTitle titles = titles ! i
           \<and> (\<forall>j < length titles. Duration (titles ! j) \<le> Duration (titles ! i))
           \<and> (\<forall>j < i. Duration (titles ! j) < Duration (titles ! i))"
proof -
  from assms obtain t ts where ts: "titles = t # ts" by (cases titles) auto
  have "\<exists>i < length ([t] @ ts). longest_loop t ts = ([t] @ ts) ! i
           \<and> (\<forall>j < length ([t] @ ts). Duration (([t] @ ts) ! j) \<le> Duration (([t] @ ts) ! i))
           \<and> (\<forall>j < i. Duration (([t] @ ts) ! j) < Duration (([t] @ ts) ! i))"
    by (rule longest_loop_first_max [where k = 0]) simp_all
  then show ?thesis by (simp add: ts findLongestTitle_def)
qed

text \<open>
  Movie mode is entered exactly when the list is not empty and either some title
  reaches the movie threshold or the threshold is not positive (the running maximum
  starts at 0).
\<close>

lemma movie_mode_iff:
  assumes "titles \<noteq> []"
  shows "maxDuration_loop 0 titles \<ge> movieThreshold
           \<longleftrightarrow> (\<exists>t \<in> set titles. Duration t \<ge> movieThreshold) \<or> movieThreshold \<le> 0"
proof
  assume ge: "maxDuration_loop 0 titles \<ge> movieThreshold"
  from maxDuration_loop_cases [of 0 titles] show
    "(\<exists>t \<in> set titles. Duration t \<ge> movieThreshold) \<or> movieThreshold \<le> 0"
  proof
    assume "maxDuration_loop 0 titles = 0"
    with ge show ?thesis by simp
  next
    assume "\<exists>t \<in> set titles. maxDuration_loop 0 titles = Duration t"
    with ge show ?thesis by auto
  qed
next
  assume "(\<exists>t \<in> set titles. Duration t \<ge> movieThreshold) \<or> movieThreshold \<le> 0"
  then show "maxDuration_loop 0 titles \<ge> movieThreshold"
  proof
    assume "\<exists>t \<in> set titles. Duration t \<ge> movieThreshold"
    then obtain t where "t \<in> set titles" and "Duration t \<ge> movieThreshold" by auto
    with maxDuration_loop_ge_elem [of t titles 0] show ?thesis by simp
  next
    assume "movieThreshold \<le> 0"
    with maxDuration_loop_ge [of 0 titles] show ?thesis by simp
  qed
qed

text \<open>
  Claim C1. For every list of titles and thresholds, where no title has a negative
  duration or the movie threshold is positive (the lists the program selects from come
  from \<^verbatim>\<open>ParseInfo\<close>, which keeps titles of positive duration only, see
  \<open>ParseInfo_titles_positive\<close> below): if some title's duration reaches the movie
  threshold, \<^verbatim>\<open>SelectTitles\<close> returns exactly one title, a title of maximum duration,
  the first such title of the list; otherwise it returns exactly the titles whose
  duration reaches the episode threshold, in the order of the list; for the empty list
  it returns the empty selection.
\<close>

theorem SelectTitles_modes:
  assumes "0 < movieThreshold \<or> (\<forall>t \<in> set titles. 0 \<le> Duration t)"
  shows "(if \<exists>t \<in> set titles. Duration t \<ge> movieThreshold
          then \<exists>i < length titles.
                 SelectTitles titles movieThreshold episodeThreshold = [titles ! i]
                 \<and> (\<forall>j < length titles. Duration (titles ! j) \<le> Duration (titles ! i))
                 \<and> (\<forall>j < i. Duration (titles ! j) < Duration (titles ! i))
          else SelectTitles titles movieThreshold episodeThreshold
                 = filter (\<lambda>t. Duration t \<ge> episodeThreshold) titles)
         \<and> SelectTitles [] movieThreshold episodeThreshold = []"
proof (cases "titles = []")
  case True
  then show ?thesis by (simp add: SelectTitles_def)
next
  case False
  have mode: "maxDuration_loop 0 titles \<ge> movieThreshold
                \<longleftrightarrow> (\<exists>t \<in> set titles. Duration t \<ge> movieThreshold)"
  proof (cases "0 < movieThreshold")
    case True
    then show ?thesis using movie_mode_iff [OF False, of movieThreshold] by auto
  next
    case neg: False
    with assms have nonneg: "\<forall>t \<in> set titles. 0 \<le> Duration t" by simp
    from False obtain t where t: "t \<in> set titles" by (cases titles) auto
    with nonneg neg have "Duration t \<ge> movieThreshold" by force
    with t have "\<exists>t \<in> set titles. Duration t \<ge> movieThreshold" by blast
    then show ?thesis using movie_mode_iff [OF False, of movieThreshold] by simp
  qed
  show ?thesis
  proof (cases "\<exists>t \<in> set titles. Duration t \<ge> movieThreshold")
    case True
    with mode have sel:
      "SelectTitles titles movieThreshold episodeThreshold = [findLongestTitle titles]"
      using False by (simp add: SelectTitles_def)
    from findLongestTitle_first_max [OF False] sel True show ?thesis
      by (simp add: SelectTitles_def)
  next
    case nomovie: False
    with mode have "SelectTitles titles movieThreshold episodeThreshold
        = filter (\<lambda>t. Duration t \<ge> episodeThreshold) titles"
      using False by (simp add: SelectTitles_def selected_loop_filter)
    with nomovie show ?thesis by (simp add: SelectTitles_def)
  qed
qed

section \<open>File names: properties\<close>

text \<open>
  File names: \<^verbatim>\<open>Trim\<close> keeps a contiguous part of the string whose two ends are outside
  the cutset.
\<close>

lemma set_Trim_subset: "set (Trim s cutset) \<subseteq> set s"
proof -
  have "set (Trim s cutset) \<subseteq> set (dropWhile (\<lambda>c. c \<in> set cutset) s)"
    unfolding Trim_def using set_dropWhileD by fastforce
  also have "\<dots> \<subseteq> set s" using set_dropWhileD by fastforce
  finally show ?thesis .
qed

lemma last_dropWhile_unchanged: "dropWhile P xs \<noteq> [] \<Longrightarrow> last (dropWhile P xs) = last xs"
  by (induction xs) (auto split: if_splits)

lemma Trim_ends:
  assumes "Trim s cutset \<noteq> []"
  shows "hd (Trim s cutset) \<notin> set cutset \<and> last (Trim s cutset) \<notin> set cutset"
proof -
  let ?P = "\<lambda>c. c \<in> set cutset"
  let ?a = "dropWhile ?P s"
  let ?b = "dropWhile ?P (rev ?a)"
  have T: "Trim s cutset = rev ?b" by (simp add: Trim_def)
  with assms have b: "?b \<noteq> []" by simp
  then have a: "?a \<noteq> []" by (metis dropWhile.simps(1) rev.simps(1))
  have "last (rev ?b) = hd ?b" using b by (simp add: last_rev)
  moreover have "\<not> ?P (hd ?b)" using b by (rule hd_dropWhile)
  ultimately have l: "last (Trim s cutset) \<notin> set cutset" using T by simp
  have "hd (rev ?b) = last ?b" using b by (simp add: hd_rev)
  also have "\<dots> = last (rev ?a)" using b by (rule last_dropWhile_unchanged)
  also have "\<dots> = hd ?a" using a by (simp add: last_rev)
  finally have "hd (Trim s cutset) = hd ?a" using T by simp
  moreover have "\<not> ?P (hd ?a)" using a by (rule hd_dropWhile)
  ultimately show ?thesis using l by simp
qed

lemma replacer_Replace_clean: "set (replacer_Replace name) \<inter> set replacer_olds = {}"
  by (auto simp: replacer_Replace_def replacer_olds_def)

text \<open>
  Claim C10. For every input string, the result of \<^verbatim>\<open>SanitizeFilename\<close> is not empty,
  contains none of the characters slash, backslash, colon, asterisk, question mark,
  double quote, less-than, greater-than, vertical bar or space, and neither begins nor
  ends with an underscore or a dot; when replacing and trimming leave nothing, the
  result is \<open>Unnamed_Disc\<close>.
\<close>

theorem SanitizeFilename_post:
  "SanitizeFilename name \<noteq> []
   \<and> set (SanitizeFilename name) \<inter>
       {CHR ''/'', CHR 0x5C, CHR '':'', CHR ''*'', CHR ''?'', CHR 0x22,
        CHR ''<'', CHR ''>'', CHR ''|'', CHR '' ''} = {}
   \<and> hd (SanitizeFilename name) \<notin> {CHR ''_'', CHR ''.''}
   \<and> last (SanitizeFilename name) \<notin> {CHR ''_'', CHR ''.''}
   \<and> (Trim (replacer_Replace name) ''_.'' = [] \<longrightarrow> SanitizeFilename name = ''Unnamed_Disc'')"
proof (cases "Trim (replacer_Replace name) ''_.'' = []")
  case True
  then have "SanitizeFilename name = ''Unnamed_Disc''" by (simp add: SanitizeFilename_def)
  then show ?thesis by simp
next
  case False
  then have S: "SanitizeFilename name = Trim (replacer_Replace name) ''_.''"
    by (simp add: SanitizeFilename_def)
  have "set (SanitizeFilename name) \<inter> set replacer_olds = {}"
    using set_Trim_subset [of "replacer_Replace name" "''_.''"] replacer_Replace_clean [of name] S
    by auto
  then have clean: "set (SanitizeFilename name) \<inter>
       {CHR ''/'', CHR 0x5C, CHR '':'', CHR ''*'', CHR ''?'', CHR 0x22,
        CHR ''<'', CHR ''>'', CHR ''|'', CHR '' ''} = {}"
    by (simp add: replacer_olds_def)
  from Trim_ends [OF False] S
  have "hd (SanitizeFilename name) \<notin> {CHR ''_'', CHR ''.''}
      \<and> last (SanitizeFilename name) \<notin> {CHR ''_'', CHR ''.''}" by simp
  with False S clean show ?thesis by simp
qed

text \<open>
  The theorem at a name that trims to nothing, and the function at an ordinary name.
\<close>

theorem SanitizeFilename_post_witness:
  "SanitizeFilename ''_._'' = ''Unnamed_Disc'' \<and> SanitizeFilename '' My: Disc?._'' = ''My__Disc''"
  using SanitizeFilename_post [of "''_._''"]
  by (simp add: SanitizeFilename_def Trim_def replacer_Replace_def replacer_olds_def)

section \<open>Progress percentage: properties\<close>

text \<open>
  Claim C7. For every progress triplet: if \<open>max > 0\<close> then the percentage is
  \<open>current / max * 100\<close> (conversion to \<^verbatim>\<open>float64\<close>, division, then multiplication, in
  the operations of \<^verbatim>\<open>float64\<close>, whatever they are); the \<open>total\<close> field does not affect
  the result; if \<open>max = 0\<close> the result is 0.
\<close>

theorem CalculatePercentage_formula:
  "(0 <s max' \<longrightarrow>
      CalculatePercentage F current total' max'
        = f64_mul F (f64_div F (f64_of_int F current) (f64_of_int F max')) (f64_of_int F 100))
   \<and> CalculatePercentage F current total' max' = CalculatePercentage F current total'' max'
   \<and> CalculatePercentage F current total' 0 = f64_of_int F 0"
  by (auto simp: CalculatePercentage_def)

text \<open>
  The theorem in exact arithmetic at the triplet (50, 7, 200): 25 percent.
\<close>

theorem CalculatePercentage_formula_witness:
  "(0::go_int) <s 200 \<and> CalculatePercentage real_ops 50 7 200 = 50 / 200 * 100
   \<and> CalculatePercentage real_ops 50 7 200 = CalculatePercentage real_ops 50 9 200
   \<and> CalculatePercentage real_ops 50 7 0 = 0"
  using CalculatePercentage_formula [of 200 real_ops 50 7 9]
  by (simp add: real_ops_def word_sless_alt)

section \<open>The queue and its persistence: properties\<close>

text \<open>
  The queue: every mutating method leaves in memory the items it computed, whatever
  the save returns.
\<close>

lemma save_items_items: "save_items J E q its s = (err, q', s') \<Longrightarrow> items q' = its \<and> persistence q' = persistence q"
  by (auto simp: save_items_def Let_def split: prod.splits)

lemma update_first_None: "update_first id' f its = None \<longleftrightarrow> id' \<notin> ID ` set its"
  by (induction its) auto

text \<open>
  Claim C9. For every queue and every id that matches no item in it,
  \<^verbatim>\<open>UpdateProgress\<close>, \<^verbatim>\<open>SetStatus\<close> and \<^verbatim>\<open>Fail\<close> each return \<^verbatim>\<open>nil\<close>, leave every
  item and the order of the queue unchanged, and perform no persistence write: the
  file system, with its list of calls, is the one before.
\<close>

theorem unknown_id_noop:
  assumes "id' \<notin> ID ` set (items q)"
  shows "UpdateProgress J E id' progress (q, s) = (None, q, s)
       \<and> SetStatus J E id' status (q, s) = (None, q, s)
       \<and> Fail J E id' err (q, s) = (None, q, s)"
  using assms update_first_None [of id' _ "items q"]
  by (simp add: UpdateProgress_def SetStatus_def Fail_def)

text \<open>
  The theorem at a queue of two items and the id \<open>zz\<close>.
\<close>

theorem unknown_id_noop_witness:
  "''zz'' \<notin> ID ` set [item_a, item_b]
   \<and> UpdateProgress stub_codec (env_ok 5) ''zz'' 50
        (\<lparr>items = [item_a, item_b], persistence = NewStatePersistence ''/q.json''\<rparr>, empty_fs)
      = (None, \<lparr>items = [item_a, item_b], persistence = NewStatePersistence ''/q.json''\<rparr>, empty_fs)
   \<and> SetStatus stub_codec (env_ok 5) ''zz'' StatusEncoding
        (\<lparr>items = [item_a, item_b], persistence = NewStatePersistence ''/q.json''\<rparr>, empty_fs)
      = (None, \<lparr>items = [item_a, item_b], persistence = NewStatePersistence ''/q.json''\<rparr>, empty_fs)
   \<and> Fail stub_codec (env_ok 5) ''zz'' ''exit status 1''
        (\<lparr>items = [item_a, item_b], persistence = NewStatePersistence ''/q.json''\<rparr>, empty_fs)
      = (None, \<lparr>items = [item_a, item_b], persistence = NewStatePersistence ''/q.json''\<rparr>, empty_fs)"
  using unknown_id_noop [of "''zz''"
      "\<lparr>items = [item_a, item_b], persistence = NewStatePersistence ''/q.json''\<rparr>"
      stub_codec "env_ok 5" 50 empty_fs StatusEncoding "''exit status 1''"]
  by (simp add: item_a_def item_b_def)

text \<open>
  Claim C4. After \<^verbatim>\<open>RetryFailed\<close>, every item whose status was \<^verbatim>\<open>Failed\<close> or
  \<^verbatim>\<open>Encoding\<close> is the same item with status \<^verbatim>\<open>Queued\<close>, progress 0, empty error text
  and cleared start and completion times; every other item is unchanged; the queue has
  the same length and the same order.
\<close>

theorem RetryFailed_resets:
  assumes "RetryFailed J E (q, s) = (err, q', s')"
  shows "length (items q') = length (items q)
       \<and> (\<forall>i < length (items q).
            if Status (items q ! i) = StatusFailed \<or> Status (items q ! i) = StatusEncoding
            then items q' ! i = (items q ! i)\<lparr>Status := StatusQueued, Progress := 0, Error := [],
                                             StartedAt := None, CompletedAt := None\<rparr>
            else items q' ! i = items q ! i)"
proof -
  from assms have "items q' = map retry_item (items q)"
    by (auto simp: RetryFailed_def dest: save_items_items)
  then show ?thesis by (simp add: retry_item_def)
qed


text \<open>
  What \<^verbatim>\<open>Save\<close> and \<^verbatim>\<open>Load\<close> do by themselves: after a \<^verbatim>\<open>Save\<close> that returns
  \<^verbatim>\<open>nil\<close> the state file holds the bytes the codec produced for the items, and a
  \<^verbatim>\<open>Load\<close> whose read does not fail returns what the codec decodes from these bytes.
  Whether they decode to the items saved is a property of \<^verbatim>\<open>encoding/json\<close>, on which
  this development says nothing.
\<close>

lemma Save_then_Load_bytes:
  assumes "Save J E sp its s = (None, s')" and "ReadFile_err E' = None"
  shows "\<exists>data. MarshalIndent J its = Inr data \<and> files s' (filePath sp) = Some data
           \<and> fst (Load J E' sp s')
               = (case Unmarshal J data of
                    Inl err \<Rightarrow> Inl (''failed to unmarshal queue state: '' @ err)
                  | Inr its' \<Rightarrow> Inr its')"
  using assms
  by (auto simp: Save_def Load_def Let_def log_call_def split: option.splits sum.splits)

text \<open>
  The theorem at a queue with a failed and a complete item.
\<close>

theorem RetryFailed_resets_witness:
  "items (fst (snd (RetryFailed stub_codec (env_ok 9)
       (\<lparr>items = [item_a\<lparr>Status := StatusFailed, Progress := 40, Error := ''exit status 1'',
                               StartedAt := Some 3, CompletedAt := Some 4\<rparr>,
                  item_b\<lparr>Status := StatusComplete, Progress := 100, CompletedAt := Some 8\<rparr>],
         persistence = NewStatePersistence ''/q.json''\<rparr>, empty_fs))))
   = [item_a, item_b\<lparr>Status := StatusComplete, Progress := 100, CompletedAt := Some 8\<rparr>]"
proof -
  let ?q = "\<lparr>items = [item_a\<lparr>Status := StatusFailed, Progress := 40, Error := ''exit status 1'',
                               StartedAt := Some 3, CompletedAt := Some 4\<rparr>,
                  item_b\<lparr>Status := StatusComplete, Progress := 100, CompletedAt := Some 8\<rparr>],
         persistence = NewStatePersistence ''/q.json''\<rparr>"
  obtain err q' s' where r: "RetryFailed stub_codec (env_ok 9) (?q, empty_fs) = (err, q', s')"
    by (cases "RetryFailed stub_codec (env_ok 9) (?q, empty_fs)") auto
  from RetryFailed_resets [OF r]
  have len: "length (items q') = 2"
    and nth: "\<forall>i < 2. if Status (items ?q ! i) = StatusFailed \<or> Status (items ?q ! i) = StatusEncoding
            then items q' ! i = (items ?q ! i)\<lparr>Status := StatusQueued, Progress := 0, Error := [],
                                             StartedAt := None, CompletedAt := None\<rparr>
            else items q' ! i = items ?q ! i"
    by simp_all
  from nth have "items q' ! 0 = item_a" by (simp add: item_a_def)
  moreover from nth have
    "items q' ! 1 = item_b\<lparr>Status := StatusComplete, Progress := 100, CompletedAt := Some 8\<rparr>"
    by (simp add: item_b_def)
  ultimately have
    "items q' = [item_a, item_b\<lparr>Status := StatusComplete, Progress := 100, CompletedAt := Some 8\<rparr>]"
    using len by (simp add: list_eq_iff_nth_eq less_Suc_eq numeral_2_eq_2)
  with r show ?thesis by simp
qed


section \<open>The worker's disposition: properties\<close>

text \<open>
  The worker: what the queue holds under the id of the encoded item after the
  disposition, and how the delete flag follows the commands.
\<close>

lemma update_first_lookup:
  assumes "update_first id' f its = Some its'" and "\<And>item. ID (f item) = ID item"
  shows "\<exists>item. lookup_item id' its = Some item \<and> lookup_item id' its' = Some (f item)"
  using assms(1)
proof (induction its arbitrary: its')
  case Nil
  then show ?case by simp
next
  case (Cons a its)
  show ?case
  proof (cases "ID a = id'")
    case True
    with Cons.prems assms(2) show ?thesis by (auto simp: lookup_item_def)
  next
    case False
    with Cons.prems obtain r where r: "update_first id' f its = Some r" and its': "its' = a # r"
      by auto
    from Cons.IH [OF r] False its' show ?thesis by (simp add: lookup_item_def)
  qed
qed

lemma lookup_item_None: "lookup_item id' its = None \<longleftrightarrow> id' \<notin> ID ` set its"
  by (auto simp: lookup_item_def find_None_iff)

lemma handleControl_flag:
  "shouldDeleteCurrent (handleControl c w) =
     (if c = WorkerDelete then True else if c = WorkerStop then False else shouldDeleteCurrent w)"
  by (cases c) (simp_all add: handleControl_def)

lemma fold_handleControl_flag:
  "shouldDeleteCurrent (fold handleControl cmds w) = delete_requested cmds (shouldDeleteCurrent w)"
proof (induction cmds arbitrary: w)
  case Nil
  show ?case by (simp add: delete_requested_def)
next
  case (Cons c cmds)
  have "shouldDeleteCurrent (fold handleControl (c # cmds) w)
      = delete_requested cmds (shouldDeleteCurrent (handleControl c w))"
    using Cons [of "handleControl c w"] by simp
  also have "\<dots> = delete_requested (c # cmds) (shouldDeleteCurrent w)"
    by (cases c) (auto simp: delete_requested_def handleControl_def split: list.splits)
  finally show ?case .
qed

text \<open>
  Claim C8, as amended. For every outcome of one encode of an item that is in the queue,
  after the worker has handled the commands \<open>cmds\<close>: a \<^verbatim>\<open>nil\<close> error marks the item
  \<^verbatim>\<open>Complete\<close>; an error whose text mentions a kill or a signal removes every item with
  that id and clears the flag when the delete flag is set, that is when the most recent
  \<^verbatim>\<open>WorkerStop\<close> or \<^verbatim>\<open>WorkerDelete\<close> command was \<^verbatim>\<open>WorkerDelete\<close> (pause and resume
  commands do not count, and with no such command the flag's earlier value stands), and
  otherwise marks the item \<^verbatim>\<open>Failed\<close> with the reason \<open>cancelled by user\<close>; any other
  error marks the item \<^verbatim>\<open>Failed\<close> with the error's text.
\<close>

theorem worker_disposition:
  assumes "lookup_item (ID item) (items q) = Some it0"
    and "encodeItem_handleResult J E item err (fold handleControl cmds w0, q, s) = (w', q', s')"
  shows "(err = None \<longrightarrow>
            lookup_item (ID item) (items q')
              = Some (it0\<lparr>Status := StatusComplete, CompletedAt := Some (Now E)\<rparr>))
       \<and> (\<forall>e. err = Some e \<and> killed_or_signal e
                \<and> delete_requested cmds (shouldDeleteCurrent w0) \<longrightarrow>
            ID item \<notin> ID ` set (items q') \<and> \<not> shouldDeleteCurrent w')
       \<and> (\<forall>e. err = Some e \<and> killed_or_signal e
                \<and> \<not> delete_requested cmds (shouldDeleteCurrent w0) \<longrightarrow>
            lookup_item (ID item) (items q')
              = Some (it0\<lparr>Status := StatusFailed, Error := ''cancelled by user'',
                           CompletedAt := Some (Now E)\<rparr>))
       \<and> (\<forall>e. err = Some e \<and> \<not> killed_or_signal e \<longrightarrow>
            lookup_item (ID item) (items q')
              = Some (it0\<lparr>Status := StatusFailed, Error := e, CompletedAt := Some (Now E)\<rparr>))"
proof -
  let ?w = "fold handleControl cmds w0"
  have flag: "shouldDeleteCurrent ?w = delete_requested cmds (shouldDeleteCurrent w0)"
    by (rule fold_handleControl_flag)
  from assms(1) have present: "ID item \<in> ID ` set (items q)"
    using lookup_item_None [of "ID item" "items q"] by auto
  have upd: "\<And>f. (\<And>x. ID (f x) = ID x) \<Longrightarrow>
      \<exists>its'. update_first (ID item) f (items q) = Some its'
             \<and> lookup_item (ID item) its' = Some (f it0)"
  proof -
    fix f :: "QueueItem \<Rightarrow> QueueItem"
    assume idf: "\<And>x. ID (f x) = ID x"
    from present obtain its' where u: "update_first (ID item) f (items q) = Some its'"
      using update_first_None [of "ID item" f "items q"] by auto
    from update_first_lookup [OF u idf] assms(1)
    have "lookup_item (ID item) its' = Some (f it0)" by auto
    with u show "\<exists>its'. update_first (ID item) f (items q) = Some its'
             \<and> lookup_item (ID item) its' = Some (f it0)" by blast
  qed
  have complete: "err = None \<longrightarrow>
            lookup_item (ID item) (items q')
              = Some (it0\<lparr>Status := StatusComplete, CompletedAt := Some (Now E)\<rparr>)"
  proof
    assume e: "err = None"
    from upd [of "stamp_status (Now E) StatusComplete"] obtain its' where
      u: "update_first (ID item) (stamp_status (Now E) StatusComplete) (items q) = Some its'"
      and l: "lookup_item (ID item) its' = Some (stamp_status (Now E) StatusComplete it0)"
      by (auto simp: stamp_status_def)
    from assms(2) e u have "items q' = its'"
      by (auto simp: encodeItem_handleResult_def Complete_def SetStatus_def
          split: prod.splits dest: save_items_items)
    with l show "lookup_item (ID item) (items q')
              = Some (it0\<lparr>Status := StatusComplete, CompletedAt := Some (Now E)\<rparr>)"
      by (simp add: stamp_status_def)
  qed
  have failed: "\<And>e msg. err = Some e \<Longrightarrow>
        (killed_or_signal e \<and> \<not> shouldDeleteCurrent ?w \<and> msg = ''cancelled by user'')
        \<or> (\<not> killed_or_signal e \<and> msg = e) \<Longrightarrow>
        lookup_item (ID item) (items q')
          = Some (it0\<lparr>Status := StatusFailed, Error := msg, CompletedAt := Some (Now E)\<rparr>)"
  proof -
    fix e msg
    assume e: "err = Some e"
      and c: "(killed_or_signal e \<and> \<not> shouldDeleteCurrent ?w \<and> msg = ''cancelled by user'')
        \<or> (\<not> killed_or_signal e \<and> msg = e)"
    let ?f = "\<lambda>item. item\<lparr>Status := StatusFailed, Error := msg, CompletedAt := Some (Now E)\<rparr>"
    from upd [of ?f] obtain its' where
      u: "update_first (ID item) ?f (items q) = Some its'"
      and l: "lookup_item (ID item) its' = Some (?f it0)"
      by auto
    from assms(2) e c u have "items q' = its'"
      by (auto simp: encodeItem_handleResult_def Fail_def killed_or_signal_def
          split: prod.splits dest: save_items_items)
    with l show "lookup_item (ID item) (items q') = Some (?f it0)" by simp
  qed
  have removed: "\<forall>e. err = Some e \<and> killed_or_signal e
                \<and> delete_requested cmds (shouldDeleteCurrent w0) \<longrightarrow>
            ID item \<notin> ID ` set (items q') \<and> \<not> shouldDeleteCurrent w'"
  proof (intro allI impI)
    fix e
    assume a: "err = Some e \<and> killed_or_signal e
                \<and> delete_requested cmds (shouldDeleteCurrent w0)"
    with flag assms(2) have "items q' = filter (\<lambda>x. ID x \<noteq> ID item) (items q)
        \<and> \<not> shouldDeleteCurrent w'"
      by (auto simp: encodeItem_handleResult_def Remove_def killed_or_signal_def
          split: prod.splits dest: save_items_items)
    then show "ID item \<notin> ID ` set (items q') \<and> \<not> shouldDeleteCurrent w'" by auto
  qed
  from complete removed failed flag show ?thesis by simp
qed


text \<open>
  The theorem at an encode stopped by \<^verbatim>\<open>WorkerStop\<close> after a pause and a resume.
\<close>

theorem worker_disposition_witness:
  "killed_or_signal ''HandBrakeCLI failed: signal: killed''
   \<and> \<not> delete_requested [WorkerPause, WorkerResume, WorkerStop] (shouldDeleteCurrent NewWorker)
   \<and> lookup_item ''a'' (items (fst (snd
        (encodeItem_handleResult stub_codec (env_ok 9) item_a
           (Some ''HandBrakeCLI failed: signal: killed'')
           (fold handleControl [WorkerPause, WorkerResume, WorkerStop] NewWorker,
            \<lparr>items = [item_a_encoding, item_b], persistence = NewStatePersistence ''/q.json''\<rparr>,
            empty_fs)))))
     = Some (item_a_encoding\<lparr>Status := StatusFailed, Error := ''cancelled by user'',
                              CompletedAt := Some 9\<rparr>)"
proof -
  let ?q = "\<lparr>items = [item_a_encoding, item_b], persistence = NewStatePersistence ''/q.json''\<rparr>"
  let ?e = "''HandBrakeCLI failed: signal: killed''"
  let ?cmds = "[WorkerPause, WorkerResume, WorkerStop]"
  have lk: "lookup_item (ID item_a) (items ?q) = Some item_a_encoding"
    by (simp add: lookup_item_def item_a_def item_a_encoding_def)
  obtain w' q' s' where r: "encodeItem_handleResult stub_codec (env_ok 9) item_a (Some ?e)
      (fold handleControl ?cmds NewWorker, ?q, empty_fs) = (w', q', s')"
    by (cases "encodeItem_handleResult stub_codec (env_ok 9) item_a (Some ?e)
      (fold handleControl ?cmds NewWorker, ?q, empty_fs)") auto
  have k: "killed_or_signal ?e" by (simp add: killed_or_signal_def)
  have d: "\<not> delete_requested ?cmds (shouldDeleteCurrent NewWorker)"
    by (simp add: delete_requested_def)
  from worker_disposition [OF lk r] k d
  have "lookup_item (ID item_a) (items q')
      = Some (item_a_encoding\<lparr>Status := StatusFailed, Error := ''cancelled by user'',
                                CompletedAt := Some (Now (env_ok 9))\<rparr>)"
    by simp
  with r k d show ?thesis by (simp add: item_a_def env_ok_def)
qed

text \<open>
  The claim as written, with "the last control command", fails: after the commands
  \<^verbatim>\<open>WorkerDelete\<close>, \<^verbatim>\<open>WorkerPause\<close> the last command is a pause, not a delete, and the
  killed encode's item is removed from the queue, not marked \<^verbatim>\<open>Failed\<close>.
\<close>

theorem worker_disposition_last_command_counterexample:
  "last [WorkerDelete, WorkerPause] = WorkerPause
   \<and> killed_or_signal ''HandBrakeCLI failed: signal: killed''
   \<and> items (fst (snd
        (encodeItem_handleResult stub_codec (env_ok 9) item_a
           (Some ''HandBrakeCLI failed: signal: killed'')
           (fold handleControl [WorkerDelete, WorkerPause] NewWorker,
            \<lparr>items = [item_a_encoding, item_b], persistence = NewStatePersistence ''/q.json''\<rparr>,
            empty_fs))))
     = [item_b]"
proof -
  have k: "killed_or_signal ''HandBrakeCLI failed: signal: killed''"
    by (simp add: killed_or_signal_def)
  have f: "shouldDeleteCurrent (fold handleControl [WorkerDelete, WorkerPause] NewWorker)"
    by (simp add: handleControl_def NewWorker_def)
  have ids: "ID item_a_encoding = ''a'' \<and> ID item_b = ''b'' \<and> ID item_a = ''a''"
    by (simp add: item_a_def item_b_def item_a_encoding_def)
  show ?thesis
    using k f ids
    by (simp add: encodeItem_handleResult_def Remove_def save_items_def killed_or_signal_def
        split: prod.splits)
qed

section \<open>The single consumer: properties\<close>

text \<open>
  The single consumer: the invariant \<open>sys_inv\<close> holds at the start and is kept by every
  step of a disciplined run; a tick on which the worker's \<^verbatim>\<open>SetStatus\<close> fails breaks it.
\<close>

lemma encoding_count_zero:
  "encoding_count its = 0 \<longleftrightarrow> (\<forall>item \<in> set its. Status item \<noteq> StatusEncoding)"
  by (simp add: encoding_count_def filter_empty_conv)

lemma encoding_count_Cons:
  "encoding_count (item # rest)
     = (if Status item = StatusEncoding then 1 else 0) + encoding_count rest"
  by (simp add: encoding_count_def)

lemma encoding_count_Nil: "encoding_count [] = 0"
  by (simp add: encoding_count_def)

lemma only_first_at_most_one: "only_first_encoding x its \<Longrightarrow> encoding_count its \<le> 1"
  by (induction its) (auto simp: encoding_count_Cons encoding_count_Nil split: if_splits)

lemma none_only_first: "encoding_count its = 0 \<Longrightarrow> only_first_encoding x its"
  by (induction its) (auto simp: encoding_count_zero)

lemma only_first_filter: "only_first_encoding x its \<Longrightarrow> only_first_encoding x (filter P its)"
proof (induction its)
  case Nil
  show ?case by simp
next
  case (Cons a its)
  show ?case
  proof (cases "ID a = x")
    case True
    with Cons.prems have z: "encoding_count (filter P its) = 0"
      by (auto simp: encoding_count_zero)
    show ?thesis
    proof (cases "P a")
      case True
      with \<open>ID a = x\<close> z show ?thesis by simp
    next
      case False
      with none_only_first [OF z] show ?thesis by simp
    qed
  next
    case False
    with Cons show ?thesis by simp
  qed
qed

lemma none_filter: "encoding_count its = 0 \<Longrightarrow> encoding_count (filter P its) = 0"
  by (auto simp: encoding_count_zero)

lemma only_first_map:
  assumes "\<And>item. ID (g item) = ID item"
    and "\<And>item. Status (g item) = StatusEncoding \<Longrightarrow> Status item = StatusEncoding"
  shows "only_first_encoding x its \<Longrightarrow> only_first_encoding x (map g its)"
proof (induction its)
  case Nil
  show ?case by simp
next
  case (Cons a its)
  show ?case
  proof (cases "ID a = x")
    case True
    with Cons.prems have "encoding_count (map g its) = 0"
      using assms(2) by (auto simp: encoding_count_zero)
    with True assms(1) show ?thesis by simp
  next
    case False
    with Cons assms show ?thesis by auto
  qed
qed

lemma none_map:
  assumes "\<And>item. Status (g item) = StatusEncoding \<Longrightarrow> Status item = StatusEncoding"
  shows "encoding_count its = 0 \<Longrightarrow> encoding_count (map g its) = 0"
  using assms by (auto simp: encoding_count_zero)

lemma none_update_first:
  assumes "\<And>item. Status (f item) = StatusEncoding \<Longrightarrow> Status item = StatusEncoding"
  shows "update_first id' f its = Some its' \<Longrightarrow> encoding_count its = 0
           \<Longrightarrow> encoding_count its' = 0"
proof (induction its arbitrary: its')
  case Nil
  then show ?case by simp
next
  case (Cons a its)
  show ?case
  proof (cases "ID a = id'")
    case True
    with Cons.prems assms show ?thesis by (auto simp: encoding_count_zero)
  next
    case False
    with Cons.prems obtain r where r: "update_first id' f its = Some r" and i: "its' = a # r"
      by auto
    from Cons.prems(2) have "encoding_count its = 0" and "Status a \<noteq> StatusEncoding"
      by (auto simp: encoding_count_zero)
    with Cons.IH [OF r] i show ?thesis by (simp add: encoding_count_Cons)
  qed
qed

lemma only_first_update_first:
  assumes "\<And>item. ID (f item) = ID item"
    and "\<And>item. Status (f item) = StatusEncoding \<Longrightarrow> Status item = StatusEncoding"
  shows "update_first id' f its = Some its' \<Longrightarrow> only_first_encoding x its
           \<Longrightarrow> only_first_encoding x its'"
proof (induction its arbitrary: its')
  case Nil
  then show ?case by simp
next
  case (Cons a its)
  show ?case
  proof (cases "ID a = id'")
    case True
    with Cons.prems have i: "its' = f a # its" by simp
    show ?thesis
    proof (cases "ID a = x")
      case True
      with Cons.prems(2) i assms(1) show ?thesis by simp
    next
      case False
      with Cons.prems(2) i assms show ?thesis by auto
    qed
  next
    case False
    with Cons.prems obtain r where r: "update_first id' f its = Some r" and i: "its' = a # r"
      by auto
    show ?thesis
    proof (cases "ID a = x")
      case True
      with Cons.prems(2) have "encoding_count its = 0" by simp
      with none_update_first [OF assms(2) r] have "encoding_count r = 0" by simp
      with True i show ?thesis by simp
    next
      case False
      with Cons.prems(2) Cons.IH [OF r] i show ?thesis by simp
    qed
  qed
qed

lemma only_first_append:
  "only_first_encoding x its \<Longrightarrow> Status item \<noteq> StatusEncoding
     \<Longrightarrow> only_first_encoding x (its @ [item])"
  by (induction its) (auto simp: encoding_count_zero)

lemma none_append:
  "encoding_count its = 0 \<Longrightarrow> Status item \<noteq> StatusEncoding
     \<Longrightarrow> encoding_count (its @ [item]) = 0"
  by (auto simp: encoding_count_zero)

text \<open>The start of an encode: from no encoding item to the first item with the id.\<close>

lemma start_only_first:
  assumes "\<And>item. ID (f item) = ID item"
  shows "update_first x f its = Some its' \<Longrightarrow> encoding_count its = 0
           \<Longrightarrow> only_first_encoding x its'"
proof (induction its arbitrary: its')
  case Nil
  then show ?case by simp
next
  case (Cons a its)
  show ?case
  proof (cases "ID a = x")
    case True
    with Cons.prems assms show ?thesis by (auto simp: encoding_count_zero)
  next
    case False
    with Cons.prems obtain r where r: "update_first x f its = Some r" and i: "its' = a # r"
      by auto
    from Cons.prems(2) have "encoding_count its = 0" and "Status a \<noteq> StatusEncoding"
      by (auto simp: encoding_count_zero)
    with Cons.IH [OF r] i False show ?thesis by simp
  qed
qed

text \<open>The end of an encode: the three dispositions leave no encoding item.\<close>

lemma finish_update_first:
  assumes "\<And>item. Status (f item) \<noteq> StatusEncoding"
  shows "update_first x f its = Some its' \<Longrightarrow> only_first_encoding x its
           \<Longrightarrow> encoding_count its' = 0"
proof (induction its arbitrary: its')
  case Nil
  then show ?case by simp
next
  case (Cons a its)
  show ?case
  proof (cases "ID a = x")
    case True
    with Cons.prems assms show ?thesis by (auto simp: encoding_count_Cons)
  next
    case False
    with Cons.prems obtain r where r: "update_first x f its = Some r" and i: "its' = a # r"
      by auto
    from Cons.prems(2) False have "only_first_encoding x its" and "Status a \<noteq> StatusEncoding"
      by auto
    with Cons.IH [OF r] i show ?thesis by (simp add: encoding_count_Cons)
  qed
qed

lemma finish_absent:
  "update_first x f its = None \<Longrightarrow> only_first_encoding x its \<Longrightarrow> encoding_count its = 0"
  by (induction its) (auto simp: encoding_count_Cons encoding_count_Nil split: if_splits)

lemma finish_remove:
  "only_first_encoding x its \<Longrightarrow> encoding_count (filter (\<lambda>item. ID item \<noteq> x) its) = 0"
  by (induction its) (auto simp: encoding_count_zero)


lemma stamp_status_ID: "ID (stamp_status now st item) = ID item"
  by (cases st) (simp_all add: stamp_status_def)

lemma stamp_status_Status: "Status (stamp_status now st item) = st"
  by (cases st) (simp_all add: stamp_status_def)

lemma update_op_items:
  assumes "(case update_first id' f (items q) of
              Some its \<Rightarrow> save_items J E q its s
            | None \<Rightarrow> (None, q, s)) = (err, q', s')"
  shows "update_first id' f (items q) = Some (items q')
       \<or> (update_first id' f (items q) = None \<and> q' = q)"
  using assms by (auto split: option.splits dest: save_items_items)

text \<open>A queue method that creates no encoding item keeps the invariant, whoever calls it.\<close>

lemma client_inv:
  assumes "sys_inv S"
    and "m (sys_queue S, sys_fs S) = (err, q', s')"
    and "\<And>x. only_first_encoding x (items (sys_queue S)) \<Longrightarrow> only_first_encoding x (items q')"
    and "encoding_count (items (sys_queue S)) = 0 \<Longrightarrow> encoding_count (items q') = 0"
  shows "sys_inv (client m S)"
proof -
  have c: "client m S = S\<lparr>sys_queue := q', sys_fs := s'\<rparr>"
    using assms(2) by (simp add: client_def)
  show ?thesis
  proof (cases "sys_current S")
    case None
    with assms(1,4) c show ?thesis by (simp add: sys_inv_def)
  next
    case (Some cur)
    with assms(1,3) c show ?thesis by (simp add: sys_inv_def)
  qed
qed

lemma update_op_inv:
  assumes "sys_inv S"
    and "\<And>item. ID (f item) = ID item"
    and "\<And>item. Status (f item) = StatusEncoding \<Longrightarrow> Status item = StatusEncoding"
    and m: "m = (\<lambda>(q, s). case update_first id' f (items q) of
                              Some its \<Rightarrow> save_items J E q its s
                            | None \<Rightarrow> (None, q, s))"
  shows "sys_inv (client m S)"
proof -
  obtain err q' s' where r: "m (sys_queue S, sys_fs S) = (err, q', s')"
    by (cases "m (sys_queue S, sys_fs S)") auto
  with m have "(case update_first id' f (items (sys_queue S)) of
              Some its \<Rightarrow> save_items J E (sys_queue S) its (sys_fs S)
            | None \<Rightarrow> (None, sys_queue S, sys_fs S)) = (err, q', s')" by simp
  from update_op_items [OF this]
  have u: "update_first id' f (items (sys_queue S)) = Some (items q')
       \<or> (update_first id' f (items (sys_queue S)) = None \<and> q' = sys_queue S)" .
  show ?thesis
  proof (rule client_inv [where m = m, OF assms(1) r])
    fix x
    assume "only_first_encoding x (items (sys_queue S))"
    with u only_first_update_first [OF assms(2,3)]
    show "only_first_encoding x (items q')" by auto
  next
    assume "encoding_count (items (sys_queue S)) = 0"
    with u none_update_first [OF assms(3)]
    show "encoding_count (items q') = 0" by auto
  qed
qed

lemma rewrite_op_inv:
  assumes "sys_inv S"
    and m: "m = (\<lambda>(q, s). save_items J E q (g (items q)) s)"
    and "\<And>x its. only_first_encoding x its \<Longrightarrow> only_first_encoding x (g its)"
    and "\<And>its. encoding_count its = 0 \<Longrightarrow> encoding_count (g its) = 0"
  shows "sys_inv (client m S)"
proof -
  obtain err q' s' where r: "m (sys_queue S, sys_fs S) = (err, q', s')"
    by (cases "m (sys_queue S, sys_fs S)") auto
  with m have i: "items q' = g (items (sys_queue S))"
    by (auto dest: save_items_items)
  show ?thesis
    by (rule client_inv [where m = m, OF assms(1) r]) (simp_all add: i assms(3,4))
qed

lemma LoadState_inv:
  assumes "sys_inv S"
  shows "sys_inv (client (LoadState J E) S)"
proof -
  obtain err q' s' where r: "LoadState J E (sys_queue S, sys_fs S) = (err, q', s')"
    by (cases "LoadState J E (sys_queue S, sys_fs S)") auto
  then have i: "q' = sys_queue S \<or> (\<exists>its. items q' = map recover_item its)"
    by (auto simp: LoadState_def split: prod.splits sum.splits dest: save_items_items)
  have z: "\<And>its. encoding_count (map recover_item its) = 0"
    by (auto simp: encoding_count_zero recover_item_def)
  show ?thesis
  proof (rule client_inv [where m = "LoadState J E", OF assms r])
    fix x
    assume "only_first_encoding x (items (sys_queue S))"
    with i z show "only_first_encoding x (items q')" by (auto intro: none_only_first)
  next
    assume "encoding_count (items (sys_queue S)) = 0"
    with i z show "encoding_count (items q') = 0" by auto
  qed
qed

lemma worker_tick_inv:
  assumes "sys_inv S" and "\<not> tick_fails J E S"
  shows "sys_inv (worker_tick J E S)"
proof (cases "sys_current S \<noteq> None \<or> paused (sys_worker S)")
  case True
  with assms(1) show ?thesis by (simp add: worker_tick_def)
next
  case idle: False
  then have z: "encoding_count (items (sys_queue S)) = 0"
    using assms(1) by (auto simp: sys_inv_def)
  show ?thesis
  proof (cases "GetNext (sys_queue S)")
    case None
    with idle assms(1) show ?thesis by (simp add: worker_tick_def)
  next
    case (Some item)
    obtain err q' s' where r:
      "SetStatus J E (ID item) StatusEncoding (sys_queue S, sys_fs S) = (err, q', s')"
      by (cases "SetStatus J E (ID item) StatusEncoding (sys_queue S, sys_fs S)") auto
    from assms(2) idle Some r have ok: "err = None"
      by (cases err) (auto simp: tick_fails_def encodeItem_begin_def)
    from r have "(case update_first (ID item) (stamp_status (Now E) StatusEncoding)
                         (items (sys_queue S)) of
              Some its \<Rightarrow> save_items J E (sys_queue S) its (sys_fs S)
            | None \<Rightarrow> (None, sys_queue S, sys_fs S)) = (err, q', s')"
      by (simp add: SetStatus_def)
    from update_op_items [OF this]
    have u: "update_first (ID item) (stamp_status (Now E) StatusEncoding) (items (sys_queue S))
               = Some (items q')
           \<or> q' = sys_queue S" by auto
    have idf: "\<And>x. ID (stamp_status (Now E) StatusEncoding x) = ID x"
      by (rule stamp_status_ID)
    from u have "only_first_encoding (ID item) (items q')"
    proof
      assume "update_first (ID item) (stamp_status (Now E) StatusEncoding) (items (sys_queue S))
               = Some (items q')"
      from start_only_first [OF idf this z] show ?thesis .
    next
      assume "q' = sys_queue S"
      with z show ?thesis by (simp add: none_only_first)
    qed
    moreover have "worker_tick J E S
        = S\<lparr>sys_queue := q', sys_fs := s', sys_current := Some item\<rparr>"
      using idle Some r ok by (simp add: worker_tick_def encodeItem_begin_def)
    ultimately show ?thesis by (simp add: sys_inv_def)
  qed
qed

lemma worker_done_inv:
  assumes "sys_inv S"
  shows "sys_inv (worker_done J E err S)"
proof (cases "sys_current S")
  case None
  with assms show ?thesis by (simp add: worker_done_def)
next
  case (Some item)
  with assms have o: "only_first_encoding (ID item) (items (sys_queue S))"
    by (simp add: sys_inv_def)
  obtain w' q' s' where r: "encodeItem_handleResult J E item err
      (sys_worker S, sys_queue S, sys_fs S) = (w', q', s')"
    by (cases "encodeItem_handleResult J E item err (sys_worker S, sys_queue S, sys_fs S)") auto
  have upd: "\<And>f e. (\<And>x. Status (f x) \<noteq> StatusEncoding) \<Longrightarrow>
      (case update_first (ID item) f (items (sys_queue S)) of
              Some its \<Rightarrow> save_items J E (sys_queue S) its (sys_fs S)
            | None \<Rightarrow> (None, sys_queue S, sys_fs S)) = (e, q', s')
      \<Longrightarrow> encoding_count (items q') = 0"
  proof -
    fix f e
    assume nf: "\<And>x. Status (f x) \<noteq> StatusEncoding"
      and c: "(case update_first (ID item) f (items (sys_queue S)) of
              Some its \<Rightarrow> save_items J E (sys_queue S) its (sys_fs S)
            | None \<Rightarrow> (None, sys_queue S, sys_fs S)) = (e, q', s')"
    from update_op_items [OF c] show "encoding_count (items q') = 0"
    proof
      assume "update_first (ID item) f (items (sys_queue S)) = Some (items q')"
      from finish_update_first [OF nf this o] show ?thesis .
    next
      assume "update_first (ID item) f (items (sys_queue S)) = None \<and> q' = sys_queue S"
      then have n: "update_first (ID item) f (items (sys_queue S)) = None"
        and q: "q' = sys_queue S" by simp_all
      from finish_absent [OF n o] q show ?thesis by simp
    qed
  qed
  have "encoding_count (items q') = 0"
  proof (cases err)
    case None
    with r obtain e where "Complete J E (ID item) (sys_queue S, sys_fs S) = (e, q', s')"
      by (auto simp: encodeItem_handleResult_def split: prod.splits)
    then show ?thesis
      by (intro upd [of "stamp_status (Now E) StatusComplete" e])
        (simp_all add: Complete_def SetStatus_def stamp_status_Status)
  next
    case (Some errStr)
    show ?thesis
    proof (cases "(Contains errStr ''killed'' \<or> Contains errStr ''signal'')
                    \<and> shouldDeleteCurrent (sys_worker S)")
      case True
      with r Some have "items q' = filter (\<lambda>x. ID x \<noteq> ID item) (items (sys_queue S))"
        by (auto simp: encodeItem_handleResult_def Remove_def split: prod.splits
            dest: save_items_items)
      with finish_remove [OF o] show ?thesis by simp
    next
      case False
      with r Some obtain e msg where "Fail J E (ID item) msg (sys_queue S, sys_fs S) = (e, q', s')"
        by (auto simp: encodeItem_handleResult_def split: prod.splits if_splits)
      then show ?thesis
        by (intro upd [of "\<lambda>x. x\<lparr>Status := StatusFailed, Error := msg,
                                  CompletedAt := Some (Now E)\<rparr>" e])
          (simp_all add: Fail_def)
    qed
  qed
  moreover have "worker_done J E err S
      = \<lparr>sys_worker = w', sys_current = None, sys_queue = q', sys_fs = s'\<rparr>"
    using Some r by (simp add: worker_done_def)
  ultimately show ?thesis by (simp add: sys_inv_def)
qed

lemma step_inv:
  assumes "sys_inv S" and "disciplined J a S"
  shows "sys_inv (do_action J a S)"
proof (cases a)
  case (ClientLoadState E)
  with assms(1) show ?thesis by (simp add: LoadState_inv)
next
  case (ClientAdd E item)
  with assms(2) have ne: "Status item \<noteq> StatusEncoding" by simp
  have "sys_inv (client (Add J E item) S)"
    by (rule rewrite_op_inv [OF assms(1), where g = "\<lambda>its. its @ [item]"])
      (simp_all add: Add_def only_first_append none_append ne)
  with ClientAdd show ?thesis by simp
next
  case (ClientUpdateProgress E id' p)
  have "sys_inv (client (UpdateProgress J E id' p) S)"
    by (rule update_op_inv [OF assms(1), where f = "\<lambda>item. item\<lparr>Progress := p\<rparr>"])
      (simp_all add: UpdateProgress_def)
  with ClientUpdateProgress show ?thesis by simp
next
  case (ClientSetStatus E id' st)
  with assms(2) have ne: "st \<noteq> StatusEncoding" by simp
  have "sys_inv (client (SetStatus J E id' st) S)"
    by (rule update_op_inv [OF assms(1), where f = "stamp_status (Now E) st"])
      (use ne in \<open>simp_all add: SetStatus_def stamp_status_ID stamp_status_Status\<close>)
  with ClientSetStatus show ?thesis by simp
next
  case (ClientFail E id' err)
  have "sys_inv (client (Fail J E id' err) S)"
    by (rule update_op_inv [OF assms(1), where f = "\<lambda>item. item\<lparr>Status := StatusFailed,
            Error := err, CompletedAt := Some (Now E)\<rparr>"])
      (simp_all add: Fail_def)
  with ClientFail show ?thesis by simp
next
  case (ClientClearCompleted E)
  have "sys_inv (client (ClearCompleted J E) S)"
    by (rule rewrite_op_inv [OF assms(1), where
          g = "filter (\<lambda>item. Status item \<noteq> StatusComplete \<and> Status item \<noteq> StatusFailed)"])
      (simp_all add: ClearCompleted_def only_first_filter none_filter)
  with ClientClearCompleted show ?thesis by simp
next
  case (ClientRetryFailed E)
  have "sys_inv (client (RetryFailed J E) S)"
    by (rule rewrite_op_inv [OF assms(1), where g = "map retry_item"])
      (auto simp: RetryFailed_def retry_item_def intro!: only_first_map none_map
        split: if_splits)
  with ClientRetryFailed show ?thesis by simp
next
  case (ClientRemove E id')
  have "sys_inv (client (Remove J E id') S)"
    by (rule rewrite_op_inv [OF assms(1), where g = "filter (\<lambda>item. ID item \<noteq> id')"])
      (simp_all add: Remove_def only_first_filter none_filter)
  with ClientRemove show ?thesis by simp
next
  case (WorkerTick E)
  with assms show ?thesis by (simp add: worker_tick_inv)
next
  case (WorkerCommand ctrl)
  with assms(1) show ?thesis by (simp add: sys_inv_def split: option.splits)
next
  case (WorkerEncodeDone E err)
  with assms(1) show ?thesis by (simp add: worker_done_inv)
qed

lemma run_inv: "sys_inv S \<Longrightarrow> disciplined_run J acts S \<Longrightarrow> sys_inv (run J acts S)"
  by (induction acts arbitrary: S) (simp_all add: step_inv)

lemma disciplined_run_take: "disciplined_run J acts S \<Longrightarrow> disciplined_run J (take n acts) S"
proof (induction acts arbitrary: S n)
  case Nil
  then show ?case by simp
next
  case (Cons a acts)
  then show ?case by (cases n) simp_all
qed

lemma initial_inv: "sys_inv (initial statePath s)"
  by (simp add: sys_inv_def initial_def NewQueue_def encoding_count_Nil)

lemma sys_inv_at_most_one: "sys_inv S \<Longrightarrow> encoding_count (items (sys_queue S)) \<le> 1"
  by (cases "sys_current S") (auto simp: sys_inv_def dest: only_first_at_most_one)

text \<open>
  Claim C2 says that at most one item has status \<^verbatim>\<open>Encoding\<close> at any instant. The code
  breaks it on this run of the program: two queued items are added; on the next tick
  the worker's \<^verbatim>\<open>SetStatus\<close> has already set the first item to \<^verbatim>\<open>Encoding\<close> when the
  write of the state file fails (disk full); \<^verbatim>\<open>encodeItem\<close> prints the error and
  returns, nothing sets the status back, and the worker holds no item; the following
  tick finds the second item queued and starts it. Both items are \<^verbatim>\<open>Encoding\<close>.
\<close>

theorem single_consumer_disk_full_run:
  "map Status (items (sys_queue (run const_codec
      [ClientAdd (env_ok 1) item_a, ClientAdd (env_ok 2) item_b,
       WorkerTick (env_disk_full 3)]
      (initial ''/q.json'' empty_fs)))) = [StatusEncoding, StatusQueued]
   \<and> sys_current (run const_codec
      [ClientAdd (env_ok 1) item_a, ClientAdd (env_ok 2) item_b,
       WorkerTick (env_disk_full 3)]
      (initial ''/q.json'' empty_fs)) = None
   \<and> map Status (items (sys_queue (run const_codec
      [ClientAdd (env_ok 1) item_a, ClientAdd (env_ok 2) item_b,
       WorkerTick (env_disk_full 3), WorkerTick (env_ok 4)]
      (initial ''/q.json'' empty_fs)))) = [StatusEncoding, StatusEncoding]
   \<and> encoding_count (items (sys_queue (run const_codec
      [ClientAdd (env_ok 1) item_a, ClientAdd (env_ok 2) item_b,
       WorkerTick (env_disk_full 3), WorkerTick (env_ok 4)]
      (initial ''/q.json'' empty_fs)))) = 2"
  by code_simp

text \<open>
  That failure is the only way to a second encoding item. In every state reached from
  the initial queue by an interleaving of the queue's methods (\<^verbatim>\<open>LoadState\<close>,
  \<^verbatim>\<open>Add\<close>, \<^verbatim>\<open>UpdateProgress\<close>, \<^verbatim>\<open>SetStatus\<close> and with it \<^verbatim>\<open>Complete\<close>,
  \<^verbatim>\<open>Pause\<close> and \<^verbatim>\<open>Resume\<close>, \<^verbatim>\<open>Fail\<close>, \<^verbatim>\<open>ClearCompleted\<close>, \<^verbatim>\<open>RetryFailed\<close>,
  \<^verbatim>\<open>Remove\<close>) with the worker's ticks, commands and dispositions, at most one item has
  status \<^verbatim>\<open>Encoding\<close> after every step, as long as the clients do what the program's
  clients do (they add no item that is already \<^verbatim>\<open>Encoding\<close> and set no status to
  \<^verbatim>\<open>Encoding\<close>) and the worker's \<^verbatim>\<open>SetStatus\<close> at the start of an encode returns no
  error.
\<close>

lemma single_consumer_invariant:
  assumes "disciplined_run J acts (initial statePath s)"
  shows "encoding_count (items (sys_queue (run J (take n acts) (initial statePath s)))) \<le> 1"
proof -
  from assms have "disciplined_run J (take n acts) (initial statePath s)"
    by (rule disciplined_run_take)
  with initial_inv have "sys_inv (run J (take n acts) (initial statePath s))"
    by (rule run_inv)
  then show ?thesis by (rule sys_inv_at_most_one)
qed

text \<open>
  The invariant on a run without the failure: two items are added, the worker starts
  the first one (one item is \<^verbatim>\<open>Encoding\<close>) and completes it.
\<close>

lemma single_consumer_invariant_example:
  "disciplined_run const_codec
      [ClientAdd (env_ok 1) item_a, ClientAdd (env_ok 2) item_b, WorkerTick (env_ok 3),
       WorkerEncodeDone (env_ok 4) None]
      (initial ''/q.json'' empty_fs)
   \<and> encoding_count (items (sys_queue (run const_codec
      (take 3 [ClientAdd (env_ok 1) item_a, ClientAdd (env_ok 2) item_b, WorkerTick (env_ok 3),
       WorkerEncodeDone (env_ok 4) None])
      (initial ''/q.json'' empty_fs)))) = 1"
proof -
  have d: "disciplined_run const_codec
      [ClientAdd (env_ok 1) item_a, ClientAdd (env_ok 2) item_b, WorkerTick (env_ok 3),
       WorkerEncodeDone (env_ok 4) None]
      (initial ''/q.json'' empty_fs)"
    by code_simp
  have "encoding_count (items (sys_queue (run const_codec
      (take 3 [ClientAdd (env_ok 1) item_a, ClientAdd (env_ok 2) item_b, WorkerTick (env_ok 3),
       WorkerEncodeDone (env_ok 4) None])
      (initial ''/q.json'' empty_fs)))) \<noteq> 0"
    by code_simp
  with single_consumer_invariant [OF d, of 3] d show ?thesis by simp
qed

section \<open>The scan parser: properties\<close>

text \<open>
  The scan parser: the keys of the title map are the ids of scan order, and the final
  loop keeps, in the order of the iteration, the titles of positive duration.
\<close>

lemma range_loop_filter:
  "range_loop m acc ks = acc @ filter (\<lambda>title. Duration title > 0) (List.map_filter m ks)"
  by (induction ks arbitrary: acc) (auto simp: map_filter_simps split: option.splits)

lemma parse_line_Titles: "Titles (fst (parse_line (r, m) line)) = Titles r"
  by (simp add: parse_line_def Let_def)

lemma foldl_parse_line_Titles: "Titles (fst (foldl parse_line (r, m) lines)) = Titles r"
proof (induction lines arbitrary: r m)
  case Nil
  show ?case by simp
next
  case (Cons l lines)
  obtain r' m' where p: "parse_line (r, m) l = (r', m')" by (cases "parse_line (r, m) l") auto
  with parse_line_Titles [of r m l] have "Titles r' = Titles r" by simp
  with Cons [of r' m'] p show ?case by simp
qed

lemma parse_lines_Titles: "Titles (fst (parse_lines output)) = []"
  by (simp add: parse_lines_def foldl_parse_line_Titles)

lemma parseTitleInfo_dom:
  "dom (parseTitleInfo line m) = dom m \<union> set_option (map_option fst (tinfo_fields line))"
  by (auto simp: parseTitleInfo_def split: option.splits prod.splits)

lemma parse_line_dom:
  "dom (snd (parse_line (r, m) line)) = dom m \<union> set_option (line_title_id line)"
  by (auto simp: parse_line_def line_title_id_def Let_def parseTitleInfo_dom)

lemma first_seen_dom:
  "set seen = dom m \<Longrightarrow> distinct seen \<Longrightarrow>
     set (first_seen seen lines) = dom (snd (foldl parse_line (r, m) lines))
     \<and> distinct (first_seen seen lines)"
proof (induction lines arbitrary: seen r m)
  case Nil
  then show ?case by simp
next
  case (Cons l lines)
  obtain r' m' where p: "parse_line (r, m) l = (r', m')" by (cases "parse_line (r, m) l") auto
  let ?seen = "case line_title_id l of
                 Some k \<Rightarrow> if k \<in> set seen then seen else seen @ [k]
               | None \<Rightarrow> seen"
  from parse_line_dom [of r m l] p have d: "dom m' = dom m \<union> set_option (line_title_id l)"
    by simp
  have s: "set ?seen = dom m'" using Cons.prems(1) d by (auto split: option.splits)
  have di: "distinct ?seen" using Cons.prems(2) by (auto split: option.splits)
  from Cons.IH [OF s di, of r'] p show ?case by simp
qed

lemma scan_order_range: "range_order (snd (parse_lines output)) (scan_order output)"
  using first_seen_dom [of "[]" Map.empty]
  by (simp add: range_order_def scan_order_def parse_lines_def)

lemma range_order_iff:
  "range_order (snd (parse_lines output)) order
     \<longleftrightarrow> distinct order \<and> set order = set (scan_order output)"
  using scan_order_range [of "output"] by (auto simp: range_order_def)

lemma ParseInfo_Titles:
  "Titles (ParseInfo order output)
     = filter (\<lambda>title. Duration title > 0) (List.map_filter (snd (parse_lines output)) order)"
proof -
  obtain r m where p: "parse_lines output = (r, m)" by (cases "parse_lines output") auto
  with parse_lines_Titles [of "output"] have "Titles r = []" by simp
  with p show ?thesis by (simp add: ParseInfo_def range_loop_filter)
qed

lemma mset_map_filter_cong:
  assumes "mset xs = mset ys"
  shows "mset (List.map_filter f xs) = mset (List.map_filter f ys)"
proof -
  have "\<And>zs. mset (List.map_filter f zs)
           = image_mset (the \<circ> f) (filter_mset (\<lambda>x. f x \<noteq> None) (mset zs))"
    by (simp add: map_filter_def)
  with assms show ?thesis by simp
qed

text \<open>
  Claim C6, as amended. For every scan output and every order in which the runtime
  iterates the title map, the \<^verbatim>\<open>Titles\<close> of the result of \<^verbatim>\<open>ParseInfo\<close> are a
  permutation of the titles in scan order (the titles of positive duration, by first
  mention of their ids); they are in scan order when the iteration happens to follow
  it, which is one of the orders an iteration may take.
\<close>

theorem ParseInfo_titles_permutation:
  assumes "range_order (snd (parse_lines output)) order"
  shows "mset (Titles (ParseInfo order output)) = mset (scan_ordered_titles output)
       \<and> Titles (ParseInfo (scan_order output) output) = scan_ordered_titles output
       \<and> range_order (snd (parse_lines output)) (scan_order output)"
proof -
  let ?m = "snd (parse_lines output)"
  from assms scan_order_range [of "output"]
  have "distinct order" and "distinct (scan_order output)"
    and "set order = set (scan_order output)"
    by (simp_all add: range_order_def)
  then have "mset order = mset (scan_order output)"
    by (simp add: set_eq_iff_mset_eq_distinct)
  then have "mset (List.map_filter ?m order) = mset (List.map_filter ?m (scan_order output))"
    by (rule mset_map_filter_cong)
  then have "mset (filter (\<lambda>title. Duration title > 0) (List.map_filter ?m order))
           = mset (filter (\<lambda>title. Duration title > 0) (List.map_filter ?m (scan_order output)))"
    by simp
  then show ?thesis
    using scan_order_range [of "output"]
    by (simp add: ParseInfo_Titles scan_ordered_titles_def)
qed

lemma two_titles_order: "scan_order scan_two_titles = [0, 1]"
  by code_simp

text \<open>
  The claim as written fails: on the output that mentions title 0 and then title 1, an
  iteration of the map that visits key 1 first returns the titles 1, 0, while scan
  order is 0, 1.
\<close>

theorem ParseInfo_scan_order_counterexample:
  "range_order (snd (parse_lines scan_two_titles)) [1, 0]
   \<and> map Title_ID (scan_ordered_titles scan_two_titles) = [0, 1]
   \<and> map Title_ID (Titles (ParseInfo [1, 0] scan_two_titles)) = [1, 0]"
proof -
  have "range_order (snd (parse_lines scan_two_titles)) [1, 0]"
    by (simp add: range_order_iff two_titles_order insert_commute)
  moreover have "map Title_ID (scan_ordered_titles scan_two_titles) = [0, 1]"
    by code_simp
  moreover have "map Title_ID (Titles (ParseInfo [1, 0] scan_two_titles)) = [1, 0]"
    by code_simp
  ultimately show ?thesis by simp
qed

text \<open>
  The theorem at that output and that iteration: the same two titles, the 20 minute
  one first.
\<close>

theorem ParseInfo_titles_permutation_witness:
  "range_order (snd (parse_lines scan_two_titles)) [1, 0]
   \<and> mset (Titles (ParseInfo [1, 0] scan_two_titles))
       = mset (scan_ordered_titles scan_two_titles)
   \<and> map Duration (Titles (ParseInfo [1, 0] scan_two_titles)) = [1200000000000, 1800000000000]"
proof -
  have ro: "range_order (snd (parse_lines scan_two_titles)) [1, 0]"
    by (simp add: range_order_iff two_titles_order insert_commute)
  have "map Duration (Titles (ParseInfo [1, 0] scan_two_titles)) = [1200000000000, 1800000000000]"
    by code_simp
  with ParseInfo_titles_permutation [OF ro] ro show ?thesis by simp
qed

section \<open>Title selection on the scanner's titles\<close>

text \<open>
  The titles that reach \<^verbatim>\<open>SelectTitles\<close> are the \<^verbatim>\<open>Titles\<close> of a scan result, and
  \<^verbatim>\<open>ParseInfo\<close> appends a title only when its duration is positive.
\<close>

lemma ParseInfo_titles_positive:
  "\<forall>title \<in> set (Titles (ParseInfo order output)). 0 < Duration title"
  by (simp add: ParseInfo_Titles)

text \<open>
  The theorem of claim C1 at the durations 30, 25, 10 with the thresholds 60 and 18
  (episode mode: the first two titles, in order), and at the titles \<^verbatim>\<open>ParseInfo\<close>
  returns for the scan of two titles of 30 and 20 minutes, with the default thresholds
  of 60 and 18 minutes in nanoseconds (episode mode: both titles, in the order given).
\<close>

theorem SelectTitles_modes_witness:
  "SelectTitles [\<lparr>Title_ID = 0, Duration = 30, Name = ''a'', Size = 1, Chapters = 2\<rparr>,
                 \<lparr>Title_ID = 1, Duration = 25, Name = ''b'', Size = 1, Chapters = 2\<rparr>,
                 \<lparr>Title_ID = 2, Duration = 10, Name = ''c'', Size = 1, Chapters = 2\<rparr>] 60 18
     = [\<lparr>Title_ID = 0, Duration = 30, Name = ''a'', Size = 1, Chapters = 2\<rparr>,
        \<lparr>Title_ID = 1, Duration = 25, Name = ''b'', Size = 1, Chapters = 2\<rparr>]
   \<and> map Title_ID (SelectTitles (Titles (ParseInfo [1, 0] scan_two_titles))
                       3600000000000 1080000000000) = [1, 0]"
proof -
  let ?ts = "Titles (ParseInfo [1, 0] scan_two_titles)"
  have "\<forall>title \<in> set ?ts. 0 \<le> Duration title"
    using ParseInfo_titles_positive [of "[1, 0]" scan_two_titles] by (auto intro: less_imp_le)
  then have h: "0 < (3600000000000::int) \<or> (\<forall>title \<in> set ?ts. 0 \<le> Duration title)"
    by (rule disjI2)
  have T: "?ts = [\<lparr>Title_ID = 1, Duration = 1200000000000, Name = [], Size = 0, Chapters = 0\<rparr>,
                  \<lparr>Title_ID = 0, Duration = 1800000000000, Name = [], Size = 0, Chapters = 0\<rparr>]"
    by code_simp
  from SelectTitles_modes [OF h, of 1080000000000] T
  have "map Title_ID (SelectTitles ?ts 3600000000000 1080000000000) = [1, 0]"
    by simp
  with SelectTitles_modes [of 60
      "[\<lparr>Title_ID = 0, Duration = 30, Name = ''a'', Size = 1, Chapters = 2\<rparr>,
        \<lparr>Title_ID = 1, Duration = 25, Name = ''b'', Size = 1, Chapters = 2\<rparr>,
        \<lparr>Title_ID = 2, Duration = 10, Name = ''c'', Size = 1, Chapters = 2\<rparr>]" 18]
  show ?thesis by simp
qed

end
